theory Spec2Isabelle
  imports Complex_Main
begin

section \<open>SailCode-Bridge: path authorization and bounded file access\<close>

text \<open>
  A shallow embedding of \<^verbatim>\<open>src/index.js\<close>: the path resolver \<^verbatim>\<open>normalizePath\<close>, the
  authorization guard \<^verbatim>\<open>isWithinAllowed\<close>, the extension policy \<^verbatim>\<open>isForbiddenExtension\<close>,
  the directory scanner \<^verbatim>\<open>scanDirTree\<close>, and the three request handlers
  \<^verbatim>\<open>GET /project/scan\<close>, \<^verbatim>\<open>POST /fs/read\<close> and \<^verbatim>\<open>POST /config/allowed-paths\<close>.

  A string is held as the bytes of its UTF-8 encoding. The functions of Node's \<^verbatim>\<open>path\<close> module are modelled in their
  POSIX variant; the working directory \<^verbatim>\<open>process.cwd()\<close> is a parameter \<open>cwd\<close>, an
  absolute path.
\<close>

subsection \<open>JavaScript numbers\<close>

text \<open>
  A JavaScript number is NaN, an infinity or a finite value. Every comparison with NaN is
  false, and \<^verbatim>\<open>Math.min\<close> returns NaN as soon as one argument is NaN.
\<close>

datatype jsnum = NaN | NInf | Num real | PInf

fun js_less :: "jsnum \<Rightarrow> jsnum \<Rightarrow> bool" where
  "js_less NaN _ = False"
| "js_less _ NaN = False"
| "js_less NInf NInf = False"
| "js_less NInf _ = True"
| "js_less _ NInf = False"
| "js_less PInf _ = False"
| "js_less (Num a) PInf = True"
| "js_less (Num a) (Num b) = (a < b)"

definition js_gt :: "jsnum \<Rightarrow> jsnum \<Rightarrow> bool" where
  "js_gt a b = js_less b a"

definition js_ge :: "jsnum \<Rightarrow> jsnum \<Rightarrow> bool" where
  "js_ge a b = (a \<noteq> NaN \<and> b \<noteq> NaN \<and> \<not> js_less a b)"

definition Math_min :: "jsnum \<Rightarrow> jsnum \<Rightarrow> jsnum" where
  "Math_min a b = (if a = NaN \<or> b = NaN then NaN else if js_less b a then b else a)"

text \<open>Truthiness of a number: \<^verbatim>\<open>0\<close> and \<^verbatim>\<open>NaN\<close> are falsy.\<close>

definition js_truthy :: "jsnum \<Rightarrow> bool" where
  "js_truthy a = (a \<noteq> NaN \<and> a \<noteq> Num 0)"

subsection \<open>Strings\<close>

text \<open>\<^verbatim>\<open>s.split(c)\<close> for a one-character separator: the empty string gives one empty piece.\<close>

fun split_on :: "char \<Rightarrow> string \<Rightarrow> string list" where
  "split_on c [] = [[]]"
| "split_on c (x # xs) =
     (if x = c then [] # split_on c xs
      else (case split_on c xs of [] \<Rightarrow> [[x]] | w # ws \<Rightarrow> (x # w) # ws))"

text \<open>\<^verbatim>\<open>xs.join(sep)\<close>.\<close>

fun join_with :: "string \<Rightarrow> string list \<Rightarrow> string" where
  "join_with sep [] = []"
| "join_with sep [x] = x"
| "join_with sep (x # y # ys) = x @ sep @ join_with sep (y # ys)"

definition startsWith :: "string \<Rightarrow> string \<Rightarrow> bool" where
  "startsWith s p = (take (length p) s = p)"

text \<open>
  \<^verbatim>\<open>String.prototype.trim\<close> removes white space and line terminators at both ends.
  These are the code points U+0009 to U+000D, U+0020, U+00A0, U+1680, U+2000 to U+200A,
  U+2028, U+2029, U+202F, U+205F, U+3000 and U+FEFF, here each by its UTF-8 bytes.
\<close>

definition white_space :: "string list" where
  "white_space =
     [[CHR 0x09], [CHR 0x0A], [CHR 0x0B], [CHR 0x0C], [CHR 0x0D], [CHR 0x20],
      [CHR 0xC2, CHR 0xA0], [CHR 0xE1, CHR 0x9A, CHR 0x80],
      [CHR 0xE2, CHR 0x80, CHR 0x80], [CHR 0xE2, CHR 0x80, CHR 0x81],
      [CHR 0xE2, CHR 0x80, CHR 0x82], [CHR 0xE2, CHR 0x80, CHR 0x83],
      [CHR 0xE2, CHR 0x80, CHR 0x84], [CHR 0xE2, CHR 0x80, CHR 0x85],
      [CHR 0xE2, CHR 0x80, CHR 0x86], [CHR 0xE2, CHR 0x80, CHR 0x87],
      [CHR 0xE2, CHR 0x80, CHR 0x88], [CHR 0xE2, CHR 0x80, CHR 0x89],
      [CHR 0xE2, CHR 0x80, CHR 0x8A], [CHR 0xE2, CHR 0x80, CHR 0xA8],
      [CHR 0xE2, CHR 0x80, CHR 0xA9], [CHR 0xE2, CHR 0x80, CHR 0xAF],
      [CHR 0xE2, CHR 0x81, CHR 0x9F], [CHR 0xE3, CHR 0x80, CHR 0x80],
      [CHR 0xEF, CHR 0xBB, CHR 0xBF]]"

text \<open>The length of the first of the byte sequences \<open>ws\<close> that \<open>s\<close> begins with, 0 if none.\<close>

fun leading :: "string list \<Rightarrow> string \<Rightarrow> nat" where
  "leading [] s = 0"
| "leading (w # ws) s = (if w \<noteq> [] \<and> take (length w) s = w then length w else leading ws s)"

fun trimStart :: "string list \<Rightarrow> string \<Rightarrow> string" where
  "trimStart ws [] = []"
| "trimStart ws (c # s) =
     (if leading ws (c # s) = 0 then c # s else trimStart ws (drop (leading ws (c # s) - 1) s))"

text \<open>The end of the string is trimmed as the start of its reversal.\<close>

definition trim :: "string \<Rightarrow> string" where
  "trim s = rev (trimStart (map rev white_space) (rev (trimStart white_space s)))"

text \<open>
  \<^verbatim>\<open>toLowerCase\<close> maps the letters A to Z and leaves every other byte as it is. This is
  JavaScript's result for a string whose cased letters are all ASCII; a string with
  another cased letter (\<^verbatim>\<open>U+00C9\<close>, the Kelvin sign \<^verbatim>\<open>U+212A\<close>) is outside this model,
  and nothing below is claimed of the extension of such a name.
\<close>

definition lower_char :: "char \<Rightarrow> char" where
  "lower_char c =
     (let n = (of_char c :: nat) in if 65 \<le> n \<and> n \<le> 90 then char_of (n + 32) else c)"

definition toLowerCase :: "string \<Rightarrow> string" where
  "toLowerCase s = map lower_char s"

subsection \<open>Node's path module (POSIX)\<close>

definition isAbsolute :: "string \<Rightarrow> bool" where
  "isAbsolute p = (case p of [] \<Rightarrow> False | c # _ \<Rightarrow> c = CHR ''/'')"

text \<open>
  \<^verbatim>\<open>normalizeString\<close> of Node with \<^verbatim>\<open>allowAboveRoot = false\<close>, on the pieces between
  slashes: empty pieces and \<^verbatim>\<open>.\<close> are dropped, \<^verbatim>\<open>..\<close> removes the last kept piece (and
  is dropped at the root).
\<close>

fun normalizeString :: "string list \<Rightarrow> string list \<Rightarrow> string list" where
  "normalizeString acc [] = acc"
| "normalizeString acc (s # ss) =
     (if s = [] \<or> s = ''.'' then normalizeString acc ss
      else if s = ''..'' then normalizeString (butlast acc) ss
      else normalizeString (acc @ [s]) ss)"

text \<open>
  \<^verbatim>\<open>path.resolve(p)\<close> with one argument: a relative \<open>p\<close> (the empty string too) is taken
  from the working directory; the result is \<^verbatim>\<open>/\<close> followed by the normalized pieces.
\<close>

definition path_resolve :: "string \<Rightarrow> string \<Rightarrow> string" where
  "path_resolve cwd p =
     (let full = (if isAbsolute p then p else cwd @ ''/'' @ p)
      in CHR ''/'' # join_with ''/'' (normalizeString [] (split_on CHR ''/'' full)))"

text \<open>The pieces of a resolved path.\<close>

definition segments :: "string \<Rightarrow> string list" where
  "segments p = filter (\<lambda>s. s \<noteq> []) (split_on CHR ''/'' p)"

fun strip_common :: "string list \<Rightarrow> string list \<Rightarrow> string list \<times> string list" where
  "strip_common (x # xs) (y # ys) =
     (if x = y then strip_common xs ys else (x # xs, y # ys))"
| "strip_common xs ys = (xs, ys)"

text \<open>
  \<^verbatim>\<open>path.relative(from, to)\<close>: both arguments are resolved, their common leading pieces
  are removed, and the result is one \<^verbatim>\<open>..\<close> for each piece left of \<open>from\<close> followed
  by the pieces left of \<open>to\<close>.
\<close>

definition path_relative :: "string \<Rightarrow> string \<Rightarrow> string \<Rightarrow> string" where
  "path_relative cwd from to =
     (let (f, t) = strip_common (segments (path_resolve cwd from)) (segments (path_resolve cwd to))
      in join_with ''/'' (replicate (length f) ''..'' @ t))"

text \<open>
  \<^verbatim>\<open>path.extname(p)\<close>: the name is the last piece of \<open>p\<close> (trailing slashes ignored). The
  extension runs from the last dot of the name to its end; it is empty when the name has
  no dot, when its only dot is its first character, and when the name is \<^verbatim>\<open>..\<close>.
\<close>

definition basename_part :: "string \<Rightarrow> string" where
  "basename_part p =
     rev (takeWhile (\<lambda>c. c \<noteq> CHR ''/'') (dropWhile (\<lambda>c. c = CHR ''/'') (rev p)))"

definition extname :: "string \<Rightarrow> string" where
  "extname p =
     (let base = basename_part p;
          after = rev (takeWhile (\<lambda>c. c \<noteq> CHR ''.'') (rev base))
      in if CHR ''.'' \<notin> set base then []
         else if length base = Suc (length after) then []
         else if base = ''..'' then []
         else CHR ''.'' # after)"

subsection \<open>Path resolver, authorization guard, extension policy\<close>

text \<open>\<^verbatim>\<open>normalizePath = (inputPath) => path.resolve(String(inputPath || '').trim())\<close>\<close>

definition normalizePath :: "string \<Rightarrow> string \<Rightarrow> string" where
  "normalizePath cwd inputPath = path_resolve cwd (trim inputPath)"

definition isWithinAllowed :: "string \<Rightarrow> string \<Rightarrow> string list \<Rightarrow> bool" where
  "isWithinAllowed cwd targetPath allowedPaths =
     (if allowedPaths = [] then False
      else
        (let resolved = normalizePath cwd targetPath
         in list_ex
              (\<lambda>base.
                 (let root = normalizePath cwd base
                  in if root = [] then False
                     else if resolved = root then True
                     else
                       (let rel = path_relative cwd root resolved
                        in rel \<noteq> [] \<and> \<not> startsWith rel ''..'' \<and> \<not> isAbsolute rel)))
              allowedPaths))"

definition isForbiddenExtension :: "string \<Rightarrow> string list \<Rightarrow> bool" where
  "isForbiddenExtension filePath forbiddenExtensions =
     (let ext = toLowerCase (extname filePath) in ext \<in> set forbiddenExtensions)"

subsection \<open>The file system\<close>

text \<open>
  The file system is a finite tree. A file has the size and the modification time that
  \<^verbatim>\<open>fs.stat\<close> reports and its content, taken to be valid UTF-8, so that the bytes of the
  file are those of its text. A directory (size,
  modification time, children) lists its children by name, in the order in which
  \<^verbatim>\<open>dirents.sort((a, b) => a.localeCompare(b))\<close> leaves the result of \<^verbatim>\<open>fs.readdir\<close>.
  \<open>NoList\<close> is a directory that \<^verbatim>\<open>fs.readdir\<close> fails on, \<open>Broken\<close> a name that \<^verbatim>\<open>fs.stat\<close>
  fails on (a dangling link, an entry deleted meanwhile).
\<close>

datatype fsnode =
    File nat string string
  | Dir nat string "(string \<times> fsnode) list"
  | NoList nat string
  | Broken

text \<open>The \<^verbatim>\<open>fs.Stats\<close> object, as far as the program reads it.\<close>

record stats =
  st_size :: nat
  st_mtime :: string
  st_isDirectory :: bool

fun node_stat :: "fsnode \<Rightarrow> stats option" where
  "node_stat (File sz mt c) = Some \<lparr>st_size = sz, st_mtime = mt, st_isDirectory = False\<rparr>"
| "node_stat (Dir sz mt es) = Some \<lparr>st_size = sz, st_mtime = mt, st_isDirectory = True\<rparr>"
| "node_stat (NoList sz mt) = Some \<lparr>st_size = sz, st_mtime = mt, st_isDirectory = True\<rparr>"
| "node_stat Broken = None"

fun fs_lookup :: "fsnode \<Rightarrow> string list \<Rightarrow> fsnode option" where
  "fs_lookup n [] = Some n"
| "fs_lookup (Dir _ _ es) (s # ss) =
     (case map_of es s of None \<Rightarrow> None | Some c \<Rightarrow> fs_lookup c ss)"
| "fs_lookup _ (s # ss) = None"

text \<open>
  \<^verbatim>\<open>fs.stat(p)\<close> and \<^verbatim>\<open>existsSync(p)\<close> on a resolved path, from the root directory \<open>fs\<close>;
  \<open>None\<close> where \<^verbatim>\<open>fs.stat\<close> throws.
\<close>

definition fs_stat :: "fsnode \<Rightarrow> string \<Rightarrow> stats option" where
  "fs_stat fs p = (case fs_lookup fs (segments p) of None \<Rightarrow> None | Some n \<Rightarrow> node_stat n)"

definition existsSync :: "fsnode \<Rightarrow> string \<Rightarrow> bool" where
  "existsSync fs p = (fs_stat fs p \<noteq> None)"

text \<open>
  The second argument of \<^verbatim>\<open>fs.readFile(p, encoding)\<close>, which \<^verbatim>\<open>POST /fs/read\<close> takes from the
  request body: \<open>EncDefault\<close> when the body has no \<^verbatim>\<open>encoding\<close> (the handler's default
  \<^verbatim>\<open>'utf8'\<close> applies), \<open>EncName n\<close> for a string \<open>n\<close>, \<open>EncNull\<close> for \<^verbatim>\<open>null\<close> (no encoding),
  \<open>EncInvalid\<close> for a boolean or a number (\<^verbatim>\<open>fs.readFile\<close> throws). An object, which
  \<^verbatim>\<open>fs.readFile\<close> takes for its options, is not modelled.
\<close>

datatype enc_arg = EncDefault | EncName string | EncNull | EncInvalid

text \<open>
  What \<^verbatim>\<open>fs.readFile\<close> gives: a string, a \<^verbatim>\<open>Buffer\<close> when there is no encoding, or a
  rejection.
\<close>

datatype read_result = Text string | Buffer | Rejected

text \<open>
  \<^verbatim>\<open>buffer.toString(n)\<close> for an encoding name \<open>n\<close> other than UTF-8, applied to a file's
  bytes: \<open>None\<close> where Node does not know the name. Node's table of encodings is a
  parameter of the model.
\<close>

type_synonym decoder = "string \<Rightarrow> string \<Rightarrow> string option"

definition is_utf8_name :: "string \<Rightarrow> bool" where
  "is_utf8_name n = (toLowerCase n \<in> set [''utf8'', ''utf-8''])"

text \<open>
  \<^verbatim>\<open>fs.readFile(p, encoding)\<close> on a resolved path. A file's text is its content read as
  UTF-8. The empty name is falsy and counts as no encoding.
\<close>

definition fs_readFile :: "decoder \<Rightarrow> fsnode \<Rightarrow> string \<Rightarrow> enc_arg \<Rightarrow> read_result" where
  "fs_readFile dec fs p enc =
     (case fs_lookup fs (segments p) of
        Some (File sz mt c) \<Rightarrow>
          (case enc of
             EncDefault \<Rightarrow> Text c
           | EncNull \<Rightarrow> Buffer
           | EncInvalid \<Rightarrow> Rejected
           | EncName n \<Rightarrow>
               if n = [] then Buffer
               else if is_utf8_name n then Text c
               else (case dec n c of None \<Rightarrow> Rejected | Some t \<Rightarrow> Text t))
      | _ \<Rightarrow> Rejected)"

subsection \<open>Directory scanner\<close>

record scanopts =
  maxDepth :: jsnum
  maxEntries :: jsnum
  ignoredDirs :: "string list"

text \<open>
  The state of one scan: the lines pushed so far, the counter \<^verbatim>\<open>entriesCount\<close>, and the
  depth of every directory that \<^verbatim>\<open>fs.readdir\<close> has listed, in order.
\<close>

record wstate =
  lines :: "string list"
  entriesCount :: nat
  readdirs :: "nat list"

definition icon_dir :: string where
  "icon_dir = [CHR 0xF0, CHR 0x9F, CHR 0x93, CHR 0x81, CHR '' '']"

definition icon_file :: string where
  "icon_file = [CHR 0xF0, CHR 0x9F, CHR 0x93, CHR 0x84, CHR '' '']"

definition truncated_marker :: string where
  "truncated_marker = [CHR 0xE2, CHR 0x80, CHR 0xA6] @ ''(truncated)''"

text \<open>
  \<^verbatim>\<open>walk(dir, depth, prefix)\<close> and its loop over the sorted names. A \<^verbatim>\<open>return\<close> inside
  the loop leaves the current call of \<^verbatim>\<open>walk\<close> only; the caller's loop goes on and meets
  the same test at its next name.
\<close>

fun walk :: "scanopts \<Rightarrow> fsnode \<Rightarrow> nat \<Rightarrow> string \<Rightarrow> wstate \<Rightarrow> wstate"
  and walk_loop :: "scanopts \<Rightarrow> (string \<times> fsnode) list \<Rightarrow> nat \<Rightarrow> string \<Rightarrow> wstate \<Rightarrow> wstate"
where
  "walk opts (Dir sz mt dirents) depth prefix st =
     (if js_ge (Num (real (entriesCount st))) (maxEntries opts) then st
      else if js_gt (Num (real depth)) (maxDepth opts) then st
      else walk_loop opts dirents depth prefix (st\<lparr>readdirs := readdirs st @ [depth]\<rparr>))"
| "walk opts (File sz mt c) depth prefix st = st"
| "walk opts (NoList sz mt) depth prefix st = st"
| "walk opts Broken depth prefix st = st"
| "walk_loop opts [] depth prefix st = st"
| "walk_loop opts ((name, child) # rest) depth prefix st =
     (if js_ge (Num (real (entriesCount st))) (maxEntries opts) then st
      else if name \<in> set (ignoredDirs opts) then walk_loop opts rest depth prefix st
      else
        (case node_stat child of
           None \<Rightarrow> walk_loop opts rest depth prefix st
         | Some stat \<Rightarrow>
             (let isDir = st_isDirectory stat;
                  st1 = st\<lparr>entriesCount := entriesCount st + 1,
                           lines := lines st @ [prefix @ (if isDir then icon_dir else icon_file) @ name]\<rparr>;
                  st2 = (if isDir then walk opts child (depth + 1) (prefix @ ''  '') st1 else st1)
              in walk_loop opts rest depth prefix st2)))"

definition scanDirTree :: "fsnode \<Rightarrow> scanopts \<Rightarrow> wstate" where
  "scanDirTree rootDir opts =
     (let st = walk opts rootDir 0 [] \<lparr>lines = [], entriesCount = 0, readdirs = []\<rparr>
      in if js_ge (Num (real (entriesCount st))) (maxEntries opts)
         then st\<lparr>lines := lines st @ [truncated_marker]\<rparr>
         else st)"

subsection \<open>Configuration, errors, request handlers\<close>

text \<open>
  The fields of the configuration object that the handlers read or write. The scan
  defaults \<^verbatim>\<open>config.maxDepth\<close>, \<^verbatim>\<open>config.maxEntries\<close> and \<^verbatim>\<open>config.ignoredDirs\<close> carry a
  prefix here, their names being those of the scan options.
\<close>

record config =
  allowedPaths :: "string list"
  activeProjectRoot :: string
  maxFileSize :: jsnum
  maxReadLines :: jsnum
  cfg_maxDepth :: jsnum
  cfg_maxEntries :: jsnum
  forbiddenExtensions :: "string list"
  cfg_ignoredDirs :: "string list"

text \<open>
  The error responses, by their \<^verbatim>\<open>code\<close>, with the message; \<open>FILE_TOO_LARGE\<close> carries the
  two numbers of its message, the size and the limit. \<open>INTERNAL\<close> stands for an exception
  or a rejected promise that the handler does not catch: the handler itself writes no
  response.
\<close>

datatype error =
    INVALID_REQUEST string
  | ACCESS_DENIED string
  | NOT_FOUND string
  | NOT_DIRECTORY string
  | FILE_TOO_LARGE nat jsnum
  | INTERNAL

text \<open>
  A numeric query parameter: \<open>Absent\<close> when it is missing or the empty string (falsy, so
  \<^verbatim>\<open>||\<close> takes the configured value), \<open>Given n\<close> when it is any other value \<open>v\<close>, with
  \<open>n\<close> the result of \<^verbatim>\<open>Number(v)\<close>: \<open>NaN\<close> for a string that is no numeric literal.
\<close>

datatype qparam = Absent | Given jsnum

definition Number_or :: "qparam \<Rightarrow> jsnum \<Rightarrow> jsnum" where
  "Number_or q dflt = (case q of Absent \<Rightarrow> dflt | Given n \<Rightarrow> n)"

record scan_req =
  q_path :: "string option"
  q_maxDepth :: qparam
  q_maxEntries :: qparam

record scan_response =
  currentDir :: string
  fileStructure :: string
  limits :: "jsnum \<times> jsnum"

text \<open>\<^verbatim>\<open>GET /project/scan\<close>, after \<^verbatim>\<open>requireToken\<close>.\<close>

definition projectScan :: "config \<Rightarrow> string \<Rightarrow> fsnode \<Rightarrow> scan_req \<Rightarrow> error + scan_response" where
  "projectScan cfg cwd fs req =
     (let pathParam = (case q_path req of None \<Rightarrow> activeProjectRoot cfg
                       | Some p \<Rightarrow> if p = [] then activeProjectRoot cfg else p);
          maxDepth' = Math_min (Number_or (q_maxDepth req) (cfg_maxDepth cfg)) (Num 8);
          maxEntries' = Math_min (Number_or (q_maxEntries req) (cfg_maxEntries cfg)) (Num 1500)
      in if pathParam = [] then Inl (INVALID_REQUEST ''path is required'')
         else
           (let resolvedPath = normalizePath cwd pathParam
            in if \<not> isWithinAllowed cwd resolvedPath (allowedPaths cfg)
               then Inl (ACCESS_DENIED ''Path not allowed'')
               else
                 (case fs_lookup fs (segments resolvedPath) of
                    None \<Rightarrow> Inl (NOT_FOUND ''Path not found'')
                  | Some dir \<Rightarrow>
                      (case node_stat dir of
                         None \<Rightarrow> Inl (NOT_FOUND ''Path not found'')
                       | Some stat \<Rightarrow>
                           if \<not> st_isDirectory stat
                           then Inl (NOT_DIRECTORY ''Path is not a directory'')
                           else
                             Inr \<lparr>currentDir = resolvedPath,
                                  fileStructure =
                                    join_with [CHR 0x0A]
                                      (lines (scanDirTree dir
                                         \<lparr>maxDepth = maxDepth', maxEntries = maxEntries',
                                          ignoredDirs = cfg_ignoredDirs cfg\<rparr>)),
                                  limits = (maxDepth', maxEntries')\<rparr>))))"

text \<open>
  \<^verbatim>\<open>POST /fs/read\<close>, after \<^verbatim>\<open>requireToken\<close>. The body gives \<^verbatim>\<open>path\<close> (\<open>None\<close> when missing),
  \<^verbatim>\<open>maxLines\<close> (\<open>None\<close> when missing, so that \<^verbatim>\<open>config.maxReadLines\<close> is taken) and
  \<^verbatim>\<open>encoding\<close>, which goes to \<^verbatim>\<open>fs.readFile\<close> as it is. The handler's file system calls are
  recorded in order, next to its response. When \<^verbatim>\<open>fs.readFile\<close> gives a \<^verbatim>\<open>Buffer\<close>, the
  handler's \<^verbatim>\<open>content.split\<close> throws.
\<close>

datatype fsop = OpExists string | OpStat string | OpReadFile string

record read_req =
  r_path :: "string option"
  r_maxLines :: "jsnum option"
  r_encoding :: enc_arg

record read_data =
  rd_path :: string
  rd_content :: string
  rd_size :: nat
  rd_lastModified :: string
  rd_lines :: nat
  rd_truncated :: bool

text \<open>
  \<^verbatim>\<open>xs.slice(0, e)\<close>: the end index is \<open>e\<close> truncated to an integer (NaN counts as 0), and
  a negative one counts from the end of the list.
\<close>

definition slice0 :: "'a list \<Rightarrow> jsnum \<Rightarrow> 'a list" where
  "slice0 xs e =
     (case e of
        NaN \<Rightarrow> []
      | NInf \<Rightarrow> []
      | PInf \<Rightarrow> xs
      | Num x \<Rightarrow> if x < 0 then take (nat (int (length xs) - \<lfloor>- x\<rfloor>)) xs else take (nat \<lfloor>x\<rfloor>) xs)"

definition truncation_suffix :: string where
  "truncation_suffix = CHR 0x0A # ''... (truncated)''"

definition fsRead ::
    "decoder \<Rightarrow> config \<Rightarrow> string \<Rightarrow> fsnode \<Rightarrow> read_req \<Rightarrow> (error + read_data) \<times> fsop list" where
  "fsRead dec cfg cwd fs req =
     (case r_path req of
        None \<Rightarrow> (Inl (INVALID_REQUEST ''File path is required''), [])
      | Some filePath \<Rightarrow>
          if filePath = [] then (Inl (INVALID_REQUEST ''File path is required''), [])
          else
            (let resolvedPath = normalizePath cwd filePath;
                 maxLines = (case r_maxLines req of None \<Rightarrow> maxReadLines cfg | Some m \<Rightarrow> m)
             in if \<not> isWithinAllowed cwd resolvedPath (allowedPaths cfg)
                then (Inl (ACCESS_DENIED ''Path not allowed''), [])
                else if isForbiddenExtension resolvedPath (forbiddenExtensions cfg)
                then (Inl (ACCESS_DENIED ''Forbidden file type''), [])
                else if \<not> existsSync fs resolvedPath
                then (Inl (NOT_FOUND ''File not found''), [OpExists resolvedPath])
                else
                  (case fs_stat fs resolvedPath of
                     None \<Rightarrow> (Inl INTERNAL, [OpExists resolvedPath, OpStat resolvedPath])
                   | Some stats \<Rightarrow>
                       if js_gt (Num (real (st_size stats))) (maxFileSize cfg)
                       then (Inl (FILE_TOO_LARGE (st_size stats) (maxFileSize cfg)),
                             [OpExists resolvedPath, OpStat resolvedPath])
                       else
                         (case fs_readFile dec fs resolvedPath (r_encoding req) of
                            Rejected \<Rightarrow>
                              (Inl INTERNAL,
                               [OpExists resolvedPath, OpStat resolvedPath, OpReadFile resolvedPath])
                          | Buffer \<Rightarrow>
                              (Inl INTERNAL,
                               [OpExists resolvedPath, OpStat resolvedPath, OpReadFile resolvedPath])
                          | Text content \<Rightarrow>
                              (let finalContent =
                                     (if js_truthy maxLines \<and> js_gt maxLines (Num 0)
                                      then
                                        (let lines' = split_on (CHR 0x0A) content
                                         in if js_gt (Num (real (length lines'))) maxLines
                                            then join_with [CHR 0x0A] (slice0 lines' maxLines)
                                                 @ truncation_suffix
                                            else content)
                                      else content)
                               in (Inr \<lparr>rd_path = filePath,
                                        rd_content = finalContent,
                                        rd_size = st_size stats,
                                        rd_lastModified = st_mtime stats,
                                        rd_lines = length (split_on (CHR 0x0A) finalContent),
                                        rd_truncated = (content \<noteq> finalContent)\<rparr>,
                                   [OpExists resolvedPath, OpStat resolvedPath,
                                    OpReadFile resolvedPath]))))))"

text \<open>
  \<^verbatim>\<open>POST /config/allowed-paths\<close>, after \<^verbatim>\<open>requireToken\<close>: the response and the
  configuration object after the request. The body gives \<^verbatim>\<open>action\<close> and \<^verbatim>\<open>path\<close>, each
  \<open>None\<close> when it is missing or no string.

  An accepted request changes the configuration object and then awaits
  \<^verbatim>\<open>fs.writeFile(CONFIG_PATH, ...)\<close>. Whether that write succeeds is the parameter
  \<open>writable\<close>; when it fails the handler answers nothing, and the object stays changed.
\<close>

record mut_req =
  m_action :: "string option"
  m_path :: "string option"

text \<open>The end of the handler: the write of the configuration file, then the response.\<close>

definition persist :: "bool \<Rightarrow> config \<Rightarrow> (error + (string list \<times> string)) \<times> config" where
  "persist writable cfg =
     (if writable then (Inr (allowedPaths cfg, activeProjectRoot cfg), cfg)
      else (Inl INTERNAL, cfg))"

definition configAllowedPaths ::
    "bool \<Rightarrow> config \<Rightarrow> string \<Rightarrow> fsnode \<Rightarrow> mut_req
       \<Rightarrow> (error + (string list \<times> string)) \<times> config" where
  "configAllowedPaths writable cfg cwd fs req =
     (case m_path req of
        None \<Rightarrow> (Inl (INVALID_REQUEST ''path is required''), cfg)
      | Some targetPath \<Rightarrow>
          if targetPath = [] then (Inl (INVALID_REQUEST ''path is required''), cfg)
          else
            (let resolved = normalizePath cwd targetPath
             in case fs_stat fs resolved of
                  None \<Rightarrow> (Inl (NOT_FOUND ''Path not found''), cfg)
                | Some stats \<Rightarrow>
                    if \<not> st_isDirectory stats
                    then (Inl (NOT_DIRECTORY ''Path is not a directory''), cfg)
                    else if m_action req = Some ''add'' then
                      (let cfg1 = (if resolved \<in> set (allowedPaths cfg) then cfg
                                   else cfg\<lparr>allowedPaths := allowedPaths cfg @ [resolved]\<rparr>);
                           cfg2 = (if activeProjectRoot cfg1 = [] then cfg1\<lparr>activeProjectRoot := resolved\<rparr>
                                   else cfg1)
                       in persist writable cfg2)
                    else if m_action req = Some ''remove'' then
                      (let cfg1 = cfg\<lparr>allowedPaths := filter (\<lambda>p. p \<noteq> resolved) (allowedPaths cfg)\<rparr>;
                           cfg2 = (if activeProjectRoot cfg1 = resolved
                                   then cfg1\<lparr>activeProjectRoot :=
                                          (case allowedPaths cfg1 of [] \<Rightarrow> [] | p # _ \<Rightarrow> p)\<rparr>
                                   else cfg1)
                       in persist writable cfg2)
                    else if m_action req = Some ''setActive'' then
                      (if resolved \<notin> set (allowedPaths cfg)
                       then (Inl (INVALID_REQUEST ''Path not in allowlist''), cfg)
                       else persist writable (cfg\<lparr>activeProjectRoot := resolved\<rparr>))
                    else (Inl (INVALID_REQUEST ''Invalid action''), cfg)))"

text \<open>
  Requests to \<^verbatim>\<open>POST /config/allowed-paths\<close>, one after another, each with the outcome of
  its write and the file system it meets. Between its two \<^verbatim>\<open>await\<close>s a handler changes the
  configuration object without yielding, so that requests served concurrently change it
  in some order.
\<close>

fun serve :: "string \<Rightarrow> config \<Rightarrow> (bool \<times> fsnode \<times> mut_req) list \<Rightarrow> config" where
  "serve cwd cfg [] = cfg"
| "serve cwd cfg ((writable, fs, req) # rs) =
     serve cwd (snd (configAllowedPaths writable cfg cwd fs req)) rs"

subsection \<open>The containment that the specification asks for\<close>

text \<open>
  The specification's reading of \<^verbatim>\<open>isAuthorized\<close>, in its own words: the path, after
  canonicalization, equals some authorized root or is a descendant of one, that is, the
  root's pieces are a proper beginning of the path's pieces.
\<close>

definition is_descendant :: "string list \<Rightarrow> string list \<Rightarrow> bool" where
  "is_descendant r p = (length r < length p \<and> take (length r) p = r)"

definition spec_isAuthorized :: "string \<Rightarrow> string \<Rightarrow> string list \<Rightarrow> bool" where
  "spec_isAuthorized cwd P R =
     list_ex
       (\<lambda>r. normalizePath cwd P = normalizePath cwd r
            \<or> is_descendant (segments (normalizePath cwd r)) (segments (normalizePath cwd P)))
       R"

subsection \<open>Concrete configurations and file systems\<close>

text \<open>\<^verbatim>\<open>DEFAULT_CONFIG\<close>, the fields modelled.\<close>

definition DEFAULT_CONFIG :: config where
  "DEFAULT_CONFIG =
     \<lparr>allowedPaths = [], activeProjectRoot = [],
      maxFileSize = Num (1024 * 1024), maxReadLines = Num 10000,
      cfg_maxDepth = Num 4, cfg_maxEntries = Num 800,
      forbiddenExtensions =
        [''.env'', ''.env.local'', ''.env.production'', ''.key'', ''.pem'', ''.p12'', ''.pfx'',
         ''.exe'', ''.dll'', ''.so'', ''.dylib'', ''.zip'', ''.tar'', ''.gz'', ''.rar''],
      cfg_ignoredDirs =
        [''node_modules'', ''.git'', ''.next'', ''.turbo'', ''dist'', ''build'', ''out'']\<rparr>"

text \<open>The default configuration after \<^verbatim>\<open>/home/u/proj\<close> has been authorized.\<close>

definition demo_cfg :: config where
  "demo_cfg = DEFAULT_CONFIG\<lparr>allowedPaths := [''/home/u/proj''], activeProjectRoot := ''/home/u/proj''\<rparr>"

text \<open>Two authorized roots, the first of them active.\<close>

definition two_roots_cfg :: config where
  "two_roots_cfg =
     DEFAULT_CONFIG\<lparr>allowedPaths := [''/home/u/proj'', ''/home/u''],
                    activeProjectRoot := ''/home/u/proj''\<rparr>"

text \<open>
  A table of encodings with the one entry \<^verbatim>\<open>hex\<close>: each byte as two hexadecimal digits.
\<close>

definition hex_digit :: "nat \<Rightarrow> char" where
  "hex_digit n = ''0123456789abcdef'' ! (n mod 16)"

definition hex_of :: "string \<Rightarrow> string" where
  "hex_of s = concat (map (\<lambda>c. [hex_digit (of_char c div 16), hex_digit (of_char c)]) s)"

definition hex_only :: decoder where
  "hex_only n c = (if toLowerCase n = ''hex'' then Some (hex_of c) else None)"

text \<open>
  A small file system: \<^verbatim>\<open>/home/u/proj\<close> holds \<^verbatim>\<open>.env\<close>, a two-line \<^verbatim>\<open>a.txt\<close>, a file
  \<^verbatim>\<open>big.bin\<close> of 2 MiB (its text is irrelevant and left empty), \<^verbatim>\<open>note.txt\<close> whose second
  line is the text of the read handler's truncation line, and a directory \<^verbatim>\<open>src\<close>.
\<close>

definition demo_fs :: fsnode where
  "demo_fs =
     Dir 4096 ''t0''
       [(''home'', Dir 4096 ''t0''
          [(''u'', Dir 4096 ''t0''
             [(''proj'', Dir 4096 ''t0''
                [(''.env'', File 8 ''t1'' ''SECRET=1''),
                 (''a.txt'', File 3 ''t2'' [CHR ''x'', CHR 0x0A, CHR ''y'']),
                 (''big.bin'', File 2097152 ''t3'' []),
                 (''note.txt'', File 17 ''t4'' (CHR ''a'' # CHR 0x0A # ''... (truncated)'')),
                 (''src'', Dir 4096 ''t5'' [(''m.js'', File 0 ''t6'' [])])])])])]"

text \<open>A directory holding one directory holding one directory ..., \<open>n\<close> levels deep.\<close>

primrec chain :: "nat \<Rightarrow> fsnode" where
  "chain 0 = Dir 0 [] []"
| "chain (Suc n) = Dir 0 [] [(''d'', chain n)]"

text \<open>A directory of \<open>n\<close> empty files, all named alike (the scanner never compares names).\<close>

definition flat :: "nat \<Rightarrow> fsnode" where
  "flat n = Dir 0 [] (replicate n (''f'', File 0 [] []))"

text \<open>
  A directory \<^verbatim>\<open>/deep\<close> holding a chain of ten nested directories, and a configuration
  that authorizes it.
\<close>

definition deep_fs :: fsnode where
  "deep_fs = Dir 4096 ''t0'' [(''deep'', chain 10)]"

definition deep_cfg :: config where
  "deep_cfg = DEFAULT_CONFIG\<lparr>allowedPaths := [''/deep''], activeProjectRoot := ''/deep''\<rparr>"

subsection \<open>How one scan extends its state\<close>

text \<open>
  The relation between the state before and after a part of a scan with limits \<open>m\<close>
  (entries) and \<open>d\<close> (depth): lines are only appended, one per counted entry and none of
  them the truncation marker; the counter stays within \<open>m\<close>; every directory listed on
  the way lies at a depth of at most \<open>d\<close>.
\<close>

definition scan_ext :: "nat \<Rightarrow> nat \<Rightarrow> wstate \<Rightarrow> wstate \<Rightarrow> bool" where
  "scan_ext m d st st' =
     (entriesCount st' \<le> m
      \<and> (\<exists>new ds. lines st' = lines st @ new
            \<and> entriesCount st' = entriesCount st + length new
            \<and> truncated_marker \<notin> set new
            \<and> readdirs st' = readdirs st @ ds
            \<and> list_all (\<lambda>k. k \<le> d) ds))"

subsection \<open>Canonical pieces\<close>

text \<open>
  The pieces that \<^verbatim>\<open>path.resolve\<close> keeps, and what they all are: not empty, free of
  slashes, and neither \<^verbatim>\<open>.\<close> nor \<^verbatim>\<open>..\<close>.
\<close>

definition proper :: "string list \<Rightarrow> bool" where
  "proper xs = list_all (\<lambda>s. s \<noteq> [] \<and> CHR ''/'' \<notin> set s \<and> s \<noteq> ''.'' \<and> s \<noteq> ''..'') xs"

definition resolved_pieces :: "string \<Rightarrow> string \<Rightarrow> string list" where
  "resolved_pieces cwd p =
     normalizeString [] (split_on CHR ''/'' (if isAbsolute p then p else cwd @ ''/'' @ p))"

section \<open>Properties\<close>

subsection \<open>Splitting and joining\<close>

lemma split_on_nonempty: "split_on c s \<noteq> []"
  by (induction s) (auto split: list.splits)

lemma split_on_no_sep: "c \<notin> set x \<Longrightarrow> split_on c x = [x]"
  by (induction x) auto

lemma split_on_append: "c \<notin> set x \<Longrightarrow> split_on c (x @ c # s) = x # split_on c s"
  by (induction x) auto

lemma split_on_pieces: "x \<in> set (split_on c s) \<Longrightarrow> c \<notin> set x"
proof (induction s arbitrary: x)
  case Nil
  then show ?case by simp
next
  case (Cons a s)
  then show ?case
    by (cases "split_on c s") (auto split: if_splits)
qed

lemma split_on_join:
  "xs \<noteq> [] \<Longrightarrow> \<forall>x\<in>set xs. c \<notin> set x \<Longrightarrow> split_on c (join_with [c] xs) = xs"
proof (induction xs)
  case Nil
  then show ?case by simp
next
  case (Cons x xs)
  show ?case
  proof (cases xs)
    case Nil
    with Cons.prems show ?thesis by (simp add: split_on_no_sep)
  next
    case (Cons y ys)
    with Cons.IH Cons.prems show ?thesis by (simp add: split_on_append)
  qed
qed

lemma join_split_on: "join_with [c] (split_on c s) = s"
proof (induction s)
  case Nil
  then show ?case by simp
next
  case (Cons a s)
  obtain w ws where sp: "split_on c s = w # ws"
    using split_on_nonempty[of c s] by (cases "split_on c s") auto
  show ?case
  proof (cases "a = c")
    case True
    with Cons sp show ?thesis by simp
  next
    case False
    with Cons sp show ?thesis by (cases ws) auto
  qed
qed

lemma join_with_snoc: "xs \<noteq> [] \<Longrightarrow> join_with sep (xs @ [y]) = join_with sep xs @ sep @ y"
  by (induction sep xs rule: join_with.induct) auto

subsection \<open>Unfolding for concrete inputs\<close>

lemmas path_defs = normalizePath_def trim_def white_space_def path_resolve_def isAbsolute_def
  path_relative_def segments_def startsWith_def isWithinAllowed_def Let_def

lemmas ext_defs = isForbiddenExtension_def extname_def basename_part_def toLowerCase_def

lemmas fs_defs = existsSync_def fs_stat_def fs_readFile_def

lemmas cfg_defs = demo_cfg_def DEFAULT_CONFIG_def

subsection \<open>Authorization guard\<close>

text \<open>A resolved path is \<^verbatim>\<open>/\<close> followed by its pieces, and resolving it again changes nothing.\<close>

lemma proper_butlast: "proper xs \<Longrightarrow> proper (butlast xs)"
  by (auto simp: proper_def list_all_iff dest: in_set_butlastD)

lemma normalizeString_proper:
  "proper acc \<Longrightarrow> \<forall>s\<in>set ss. CHR ''/'' \<notin> set s \<Longrightarrow> proper (normalizeString acc ss)"
proof (induction ss arbitrary: acc)
  case Nil
  then show ?case by simp
next
  case (Cons s ss)
  have "proper (acc @ [s])" if "s \<noteq> []" "s \<noteq> ''.''" "s \<noteq> ''..''"
    using that Cons.prems by (simp add: proper_def)
  then show ?case
    using Cons by (auto simp: proper_butlast)
qed

lemma normalizeString_id: "proper ss \<Longrightarrow> normalizeString acc ss = acc @ ss"
  by (induction ss arbitrary: acc) (auto simp: proper_def)

lemma proper_resolved_pieces: "proper (resolved_pieces cwd p)"
  unfolding resolved_pieces_def
  by (rule normalizeString_proper) (auto simp: proper_def dest: split_on_pieces)

lemma path_resolve_pieces: "path_resolve cwd p = CHR ''/'' # join_with ''/'' (resolved_pieces cwd p)"
  by (simp add: path_resolve_def resolved_pieces_def Let_def)

lemma split_on_joined:
  assumes "proper xs"
  shows "filter (\<lambda>s. s \<noteq> []) (split_on CHR ''/'' (join_with ''/'' xs)) = xs"
proof (cases xs)
  case Nil
  then show ?thesis by simp
next
  case (Cons x xs')
  have "\<forall>s\<in>set xs. CHR ''/'' \<notin> set s" and ne: "\<forall>s\<in>set xs. s \<noteq> []"
    using assms by (auto simp: proper_def list_all_iff)
  then have "split_on CHR ''/'' (join_with ''/'' xs) = xs"
    using Cons split_on_join [of xs "CHR ''/''"] by simp
  then show ?thesis using ne by (simp add: filter_id_conv)
qed

lemma segments_resolved: "segments (path_resolve cwd p) = resolved_pieces cwd p"
  by (simp add: segments_def path_resolve_pieces split_on_joined proper_resolved_pieces)

lemma resolved_pieces_idem: "resolved_pieces cwd' (path_resolve cwd p) = resolved_pieces cwd p"
proof -
  let ?xs = "resolved_pieces cwd p"
  have pr: "proper ?xs" by (rule proper_resolved_pieces)
  have "resolved_pieces cwd' (path_resolve cwd p)
      = normalizeString [] (split_on CHR ''/'' (CHR ''/'' # join_with ''/'' ?xs))"
    by (simp add: resolved_pieces_def path_resolve_pieces isAbsolute_def)
  also have "\<dots> = normalizeString [] (split_on CHR ''/'' (join_with ''/'' ?xs))"
    by simp
  also have "\<dots> = ?xs"
  proof (cases ?xs)
    case Nil
    then show ?thesis by simp
  next
    case (Cons x xs')
    have "\<forall>s\<in>set ?xs. CHR ''/'' \<notin> set s"
      using pr by (auto simp: proper_def list_all_iff)
    then have "split_on CHR ''/'' (join_with ''/'' ?xs) = ?xs"
      using Cons split_on_join [of ?xs "CHR ''/''"] by simp
    then show ?thesis using pr by (simp add: normalizeString_id)
  qed
  finally show ?thesis .
qed

lemma path_resolve_idem: "path_resolve cwd' (path_resolve cwd p) = path_resolve cwd p"
proof -
  have "path_resolve cwd' (path_resolve cwd p)
      = CHR ''/'' # join_with ''/'' (resolved_pieces cwd' (path_resolve cwd p))"
    by (rule path_resolve_pieces)
  also have "\<dots> = CHR ''/'' # join_with ''/'' (resolved_pieces cwd p)"
    by (simp only: resolved_pieces_idem)
  also have "\<dots> = path_resolve cwd p"
    by (rule path_resolve_pieces [symmetric])
  finally show ?thesis .
qed

lemma path_resolve_eq_iff:
  "path_resolve cwd p = path_resolve cwd q \<longleftrightarrow> resolved_pieces cwd p = resolved_pieces cwd q"
proof
  assume "path_resolve cwd p = path_resolve cwd q"
  then have "segments (path_resolve cwd p) = segments (path_resolve cwd q)" by simp
  then show "resolved_pieces cwd p = resolved_pieces cwd q"
    by (simp only: segments_resolved)
next
  assume "resolved_pieces cwd p = resolved_pieces cwd q"
  then show "path_resolve cwd p = path_resolve cwd q"
    by (simp only: path_resolve_pieces)
qed

lemma strip_common_split:
  "strip_common xs ys = (f, t) \<Longrightarrow>
     \<exists>c. xs = c @ f \<and> ys = c @ t \<and> (f = [] \<or> t = [] \<or> hd f \<noteq> hd t)"
proof (induction xs ys rule: strip_common.induct)
  case (1 x xs y ys)
  show ?case
  proof (cases "x = y")
    case True
    with 1 obtain c where "xs = c @ f" "ys = c @ t" "f = [] \<or> t = [] \<or> hd f \<noteq> hd t"
      by auto
    with True show ?thesis by (intro exI [of _ "x # c"]) simp
  next
    case False
    with 1 show ?thesis by (intro exI [of _ "[]"]) auto
  qed
qed auto

lemma strip_common_prefix:
  "is_descendant r p \<or> r = p \<longleftrightarrow> fst (strip_common r p) = []"
  "fst (strip_common r p) = [] \<Longrightarrow> p = r @ snd (strip_common r p)"
proof -
  obtain f t where ft: "strip_common r p = (f, t)" by (cases "strip_common r p")
  from strip_common_split [OF ft] obtain c where
    c: "r = c @ f" "p = c @ t" "f = [] \<or> t = [] \<or> hd f \<noteq> hd t" by blast
  show "fst (strip_common r p) = [] \<Longrightarrow> p = r @ snd (strip_common r p)"
    using ft c by simp
  show "is_descendant r p \<or> r = p \<longleftrightarrow> fst (strip_common r p) = []"
  proof
    assume "fst (strip_common r p) = []"
    then have "p = r @ t" using ft c by simp
    then show "is_descendant r p \<or> r = p"
      by (cases t) (auto simp: is_descendant_def)
  next
    assume "is_descendant r p \<or> r = p"
    then have pre: "take (length r) p = r" by (auto simp: is_descendant_def)
    show "fst (strip_common r p) = []"
    proof (rule ccontr)
      assume "fst (strip_common r p) \<noteq> []"
      then have fne: "f \<noteq> []" using ft by simp
      then obtain a f' where f: "f = a # f'" by (cases f) auto
      from pre c have "take (length c + length f) (c @ t) = c @ f" by simp
      then have tk: "take (length f) t = f" by simp
      then obtain b t' where t: "t = b # t'" using f by (cases t) auto
      with tk f have "a = b" by simp
      with c(3) f t show False by simp
    qed
  qed
qed

text \<open>
  What the guard decides: the path is accepted exactly when, for some root, the pieces of
  the two resolved paths are equal, or the root's pieces are a proper beginning of the
  path's pieces and the next piece of the path does not begin with two dots. So the guard
  never accepts a path outside every root, and accepts nothing when there is no root.
\<close>

lemma startsWith_join_first:
  assumes "x \<noteq> []" and "CHR ''/'' \<notin> set x"
  shows "startsWith (join_with ''/'' (x # xs)) ''..'' \<longleftrightarrow> startsWith x ''..''"
proof (cases xs)
  case Nil
  then show ?thesis by simp
next
  case (Cons y ys)
  obtain c x' where x: "x = c # x'" using assms(1) by (cases x) auto
  show ?thesis
  proof (cases x')
    case Nil
    with x Cons show ?thesis by (simp add: startsWith_def)
  next
    case (Cons d x'')
    with x \<open>xs = y # ys\<close> show ?thesis by (simp add: startsWith_def)
  qed
qed

lemma join_first_shape:
  assumes "x \<noteq> []" and "CHR ''/'' \<notin> set x"
  shows "join_with ''/'' (x # xs) \<noteq> [] \<and> \<not> isAbsolute (join_with ''/'' (x # xs))"
proof -
  obtain c x' where x: "x = c # x'" using assms(1) by (cases x) auto
  with assms(2) have "c \<noteq> CHR ''/''" by auto
  with x show ?thesis by (cases xs) (simp_all add: isAbsolute_def)
qed

lemma startsWith_parent_first: "startsWith (join_with ''/'' (''..'' # xs)) ''..''"
  by (cases xs) (simp_all add: startsWith_def)

lemma path_relative_pieces:
  "path_relative cwd (path_resolve cwd r) (path_resolve cwd p) =
     (let (f, t) = strip_common (resolved_pieces cwd r) (resolved_pieces cwd p)
      in join_with ''/'' (replicate (length f) ''..'' @ t))"
  by (simp only: path_relative_def path_resolve_idem segments_resolved)

lemma guard_one_root:
  fixes cwd p r
  defines "pa \<equiv> resolved_pieces cwd p" and "pb \<equiv> resolved_pieces cwd r"
  defines "rel \<equiv> path_relative cwd (path_resolve cwd r) (path_resolve cwd p)"
  assumes ne: "pa \<noteq> pb"
  shows "rel \<noteq> [] \<and> \<not> startsWith rel ''..'' \<and> \<not> isAbsolute rel
         \<longleftrightarrow> is_descendant pb pa \<and> \<not> startsWith (pa ! length pb) ''..''"
proof -
  obtain f t where ft: "strip_common pb pa = (f, t)" by (cases "strip_common pb pa")
  have rel: "rel = join_with ''/'' (replicate (length f) ''..'' @ t)"
    using ft by (simp add: rel_def path_relative_pieces pa_def pb_def)
  have pre: "is_descendant pb pa \<or> pb = pa \<longleftrightarrow> f = []"
    using strip_common_prefix(1) [of pb pa] ft by simp
  show ?thesis
  proof (cases f)
    case Nil
    then have pa: "pa = pb @ t"
      using strip_common_prefix(2) [of pb pa] ft by simp
    with ne obtain x xs where t: "t = x # xs" by (cases t) auto
    have "proper pa" unfolding pa_def by (rule proper_resolved_pieces)
    then have px: "x \<noteq> []" "CHR ''/'' \<notin> set x"
      using pa t by (auto simp: proper_def)
    have nth: "pa ! length pb = x" using pa t by simp
    have desc: "is_descendant pb pa" using pre Nil ne by auto
    from Nil t have "rel = join_with ''/'' (x # xs)" using rel by simp
    then show ?thesis
      using join_first_shape [OF px, of xs] startsWith_join_first [OF px, of xs] nth desc
      by simp
  next
    case (Cons a f')
    then have nd: "\<not> is_descendant pb pa" using pre by auto
    have "rel = join_with ''/'' (''..'' # (replicate (length f') ''..'' @ t))"
      using rel Cons by simp
    then have "startsWith rel ''..''"
      by (simp only: startsWith_parent_first)
    with nd show ?thesis by simp
  qed
qed

lemma isWithinAllowed_iff:
  "isWithinAllowed cwd P R \<longleftrightarrow>
     (\<exists>r\<in>set R.
        segments (normalizePath cwd P) = segments (normalizePath cwd r)
        \<or> (is_descendant (segments (normalizePath cwd r)) (segments (normalizePath cwd P))
           \<and> \<not> startsWith (segments (normalizePath cwd P) ! length (segments (normalizePath cwd r))) ''..''))"
proof -
  let ?pa = "resolved_pieces cwd (trim P)"
  have one: "(let root = normalizePath cwd r
              in if root = [] then False
                 else if normalizePath cwd P = root then True
                 else (let rel = path_relative cwd root (normalizePath cwd P)
                       in rel \<noteq> [] \<and> \<not> startsWith rel ''..'' \<and> \<not> isAbsolute rel))
             \<longleftrightarrow> (?pa = resolved_pieces cwd (trim r)
                  \<or> (is_descendant (resolved_pieces cwd (trim r)) ?pa
                     \<and> \<not> startsWith (?pa ! length (resolved_pieces cwd (trim r))) ''..''))" for r
  proof (cases "?pa = resolved_pieces cwd (trim r)")
    case True
    then have "normalizePath cwd P = normalizePath cwd r"
      by (simp add: normalizePath_def path_resolve_eq_iff)
    with True show ?thesis by (simp add: normalizePath_def path_resolve_pieces)
  next
    case False
    then have neq: "normalizePath cwd P \<noteq> normalizePath cwd r"
      by (simp add: normalizePath_def path_resolve_eq_iff)
    have nn: "normalizePath cwd r \<noteq> []"
      by (simp add: normalizePath_def path_resolve_pieces)
    from guard_one_root [OF False] neq nn False show ?thesis
      by (simp add: normalizePath_def Let_def)
  qed
  have seg: "segments (normalizePath cwd x) = resolved_pieces cwd (trim x)" for x
    by (simp only: normalizePath_def segments_resolved)
  have "isWithinAllowed cwd P R \<longleftrightarrow>
      (\<exists>r\<in>set R.
         (let root = normalizePath cwd r
          in if root = [] then False
             else if normalizePath cwd P = root then True
             else (let rel = path_relative cwd root (normalizePath cwd P)
                   in rel \<noteq> [] \<and> \<not> startsWith rel ''..'' \<and> \<not> isAbsolute rel)))"
  proof (cases "R = []")
    case True
    then show ?thesis by (simp add: isWithinAllowed_def)
  next
    case False
    then show ?thesis by (simp add: isWithinAllowed_def list_ex_iff Let_def)
  qed
  also have "\<dots> \<longleftrightarrow>
      (\<exists>r\<in>set R. ?pa = resolved_pieces cwd (trim r)
                  \<or> (is_descendant (resolved_pieces cwd (trim r)) ?pa
                     \<and> \<not> startsWith (?pa ! length (resolved_pieces cwd (trim r))) ''..''))"
    by (rule bex_cong [OF refl]) (rule one)
  finally show ?thesis by (simp only: seg)
qed

lemma isWithinAllowed_sound: "isWithinAllowed cwd P R \<Longrightarrow> spec_isAuthorized cwd P R"
proof -
  assume "isWithinAllowed cwd P R"
  then obtain r where r: "r \<in> set R"
    and c: "segments (normalizePath cwd P) = segments (normalizePath cwd r)
        \<or> is_descendant (segments (normalizePath cwd r)) (segments (normalizePath cwd P))"
    unfolding isWithinAllowed_iff by blast
  have "normalizePath cwd P = normalizePath cwd r"
    if "segments (normalizePath cwd P) = segments (normalizePath cwd r)"
    using that by (simp add: normalizePath_def segments_resolved path_resolve_eq_iff)
  with r c show ?thesis
    unfolding spec_isAuthorized_def list_ex_iff by blast
qed

lemma isWithinAllowed_no_roots: "\<not> isWithinAllowed cwd P []"
  by (simp add: isWithinAllowed_def)

text \<open>
  C1. The guard should accept every path that, once canonical, is a root or a descendant of
  a root. \<^verbatim>\<open>/home/u/proj/..cache/x.txt\<close> is a descendant of the root \<^verbatim>\<open>/home/u/proj\<close>: its
  relative path \<^verbatim>\<open>..cache/x.txt\<close> is not empty, not absolute, and its first piece is
  \<^verbatim>\<open>..cache\<close>, not the parent piece \<^verbatim>\<open>..\<close>. The guard rejects it all the same, because
  \<^verbatim>\<open>rel.startsWith('..')\<close> compares two characters, not a piece.
\<close>

theorem C1_dotdot_name_is_denied:
  "spec_isAuthorized ''/srv/app'' ''/home/u/proj/..cache/x.txt'' [''/home/u/proj'']
   \<and> path_relative ''/srv/app'' ''/home/u/proj'' ''/home/u/proj/..cache/x.txt'' = ''..cache/x.txt''
   \<and> \<not> isWithinAllowed ''/srv/app'' ''/home/u/proj/..cache/x.txt'' [''/home/u/proj'']"
  by (simp add: spec_isAuthorized_def is_descendant_def path_defs)

subsection \<open>Path resolver\<close>

text \<open>
  C4. The specification has the resolver answer a raw string that is empty after trimming
  with a sentinel that callers treat as an error. \<^verbatim>\<open>normalizePath\<close> has no such result:
  a string of two spaces resolves to the working directory, and the guard takes it for an
  authorized path when the working directory is an authorized root. The test
  \<^verbatim>\<open>if (!root) return false\<close> of \<^verbatim>\<open>isWithinAllowed\<close> can therefore never fire.
\<close>

theorem C4_blank_path_resolves_to_cwd:
  "normalizePath ''/srv/app'' ''  '' = ''/srv/app''
   \<and> normalizePath ''/srv/app'' [] = ''/srv/app''
   \<and> isWithinAllowed ''/srv/app'' ''  '' [''/srv/app'']"
  by (simp add: path_defs)

subsection \<open>Extension policy\<close>

text \<open>
  For an authorized path the handler answers \<^verbatim>\<open>ACCESS_DENIED\<close>, "Forbidden file type",
  exactly when \<^verbatim>\<open>isForbiddenExtension\<close> holds of the resolved path; the extension is compared
  in lower case.
\<close>

lemma fsRead_forbidden_iff:
  assumes "r_path req = Some p" and "p \<noteq> []"
    and "isWithinAllowed cwd (normalizePath cwd p) (allowedPaths cfg)"
  shows "fst (fsRead dec cfg cwd fs req) = Inl (ACCESS_DENIED ''Forbidden file type'')
         \<longleftrightarrow> isForbiddenExtension (normalizePath cwd p) (forbiddenExtensions cfg)"
  using assms
  by (auto simp: fsRead_def Let_def split: option.splits read_result.splits)

lemma extname_lowercase_example:
  "extname ''/home/u/proj/Key.PEM'' = ''.PEM''
   \<and> isForbiddenExtension ''/home/u/proj/Key.PEM'' [''.key'', ''.pem'']"
  by code_simp

text \<open>
  C2. With \<^verbatim>\<open>.env\<close> forbidden, reading the authorized file \<^verbatim>\<open>/home/u/proj/.env\<close> should
  fail with \<^verbatim>\<open>ACCESS_DENIED\<close>. It does not: \<^verbatim>\<open>path.extname\<close> gives the empty string for a
  name whose only dot is its first character, so \<^verbatim>\<open>isForbiddenExtension\<close> is false and
  the handler returns the file's text.
\<close>

theorem C2_dot_env_is_read:
  "extname ''/home/u/proj/.env'' = []
   \<and> \<not> isForbiddenExtension ''/home/u/proj/.env'' (forbiddenExtensions demo_cfg)
   \<and> isWithinAllowed ''/srv/app'' ''/home/u/proj/.env'' (allowedPaths demo_cfg)
   \<and> fst (fsRead dec demo_cfg ''/srv/app'' demo_fs
            \<lparr>r_path = Some ''/home/u/proj/.env'', r_maxLines = None, r_encoding = EncDefault\<rparr>)
       = Inr \<lparr>rd_path = ''/home/u/proj/.env'', rd_content = ''SECRET=1'', rd_size = 8,
              rd_lastModified = ''t1'', rd_lines = 1, rd_truncated = False\<rparr>"
  by (simp add: fsRead_def path_defs ext_defs fs_defs cfg_defs demo_fs_def js_gt_def js_truthy_def)

subsection \<open>Authorized roots\<close>

text \<open>
  Every error response of the handler is written before the configuration object is
  touched. What can follow a change of the object is a failing write of the configuration
  file only, and then the change stays.
\<close>

lemma configAllowedPaths_error_unchanged:
  assumes "fst (configAllowedPaths w cfg cwd fs req) = Inl e" and "e \<noteq> INTERNAL"
  shows "snd (configAllowedPaths w cfg cwd fs req) = cfg"
  using assms
  by (auto simp: configAllowedPaths_def persist_def Let_def split: option.splits if_splits)

lemma write_failure_keeps_change:
  "configAllowedPaths False two_roots_cfg ''/srv/app'' demo_fs
     \<lparr>m_action = Some ''setActive'', m_path = Some ''/home/u''\<rparr>
   = (Inl INTERNAL, two_roots_cfg\<lparr>activeProjectRoot := ''/home/u''\<rparr>)
   \<and> two_roots_cfg\<lparr>activeProjectRoot := ''/home/u''\<rparr> \<noteq> two_roots_cfg"
proof -
  have "activeProjectRoot (two_roots_cfg\<lparr>activeProjectRoot := ''/home/u''\<rparr>)
          \<noteq> activeProjectRoot two_roots_cfg"
    by (simp add: two_roots_cfg_def)
  then have "two_roots_cfg\<lparr>activeProjectRoot := ''/home/u''\<rparr> \<noteq> two_roots_cfg"
    by metis
  moreover have "configAllowedPaths False two_roots_cfg ''/srv/app'' demo_fs
     \<lparr>m_action = Some ''setActive'', m_path = Some ''/home/u''\<rparr>
   = (Inl INTERNAL, two_roots_cfg\<lparr>activeProjectRoot := ''/home/u''\<rparr>)"
    by (simp add: configAllowedPaths_def persist_def path_defs fs_defs two_roots_cfg_def
          DEFAULT_CONFIG_def demo_fs_def)
  ultimately show ?thesis by simp
qed

text \<open>
  C8, as the specification has it: \<^verbatim>\<open>setActiveRoot(path)\<close> fails with \<^verbatim>\<open>InvalidRequest\<close>
  whenever the path is no member of the authorized set, whatever its state on disk. The
  handler examines the disk first: for a path that does not exist the failure is
  \<^verbatim>\<open>NOT_FOUND\<close>.
\<close>

theorem C8_counterexample:
  "''/nonexistent'' \<notin> set (allowedPaths demo_cfg)
   \<and> normalizePath ''/srv/app'' ''/nonexistent'' \<notin> set (allowedPaths demo_cfg)
   \<and> fst (configAllowedPaths True demo_cfg ''/srv/app'' demo_fs
            \<lparr>m_action = Some ''setActive'', m_path = Some ''/nonexistent''\<rparr>)
       = Inl (NOT_FOUND ''Path not found'')"
  by (simp add: configAllowedPaths_def path_defs fs_defs cfg_defs demo_fs_def)

text \<open>
  C8, amended. A \<^verbatim>\<open>setActive\<close> request whose path is missing or empty, or whose resolved
  path is no member of \<^verbatim>\<open>allowedPaths\<close>, always fails and leaves the configuration as it
  was, whether or not the configuration file can be written. The failure is
  \<^verbatim>\<open>INVALID_REQUEST\<close> for a missing or empty path; otherwise it is \<^verbatim>\<open>NOT_FOUND\<close> when
  \<^verbatim>\<open>fs.stat\<close> fails on the resolved path, \<^verbatim>\<open>NOT_DIRECTORY\<close> when it is no directory, and
  \<^verbatim>\<open>INVALID_REQUEST\<close> when it is a directory. Moreover every request to the handler that
  is answered with an error response, whatever its action, leaves the configuration (the
  active root with it) unchanged.
\<close>

theorem C8_setActive_rejects_non_member:
  assumes "m_action req = Some ''setActive''"
    and "\<forall>p. m_path req = Some p \<and> p \<noteq> [] \<longrightarrow> normalizePath cwd p \<notin> set (allowedPaths cfg)"
  shows "fst (configAllowedPaths w cfg cwd fs req) =
           (case m_path req of
              None \<Rightarrow> Inl (INVALID_REQUEST ''path is required'')
            | Some p \<Rightarrow>
                if p = [] then Inl (INVALID_REQUEST ''path is required'')
                else
                  (case fs_stat fs (normalizePath cwd p) of
                     None \<Rightarrow> Inl (NOT_FOUND ''Path not found'')
                   | Some stats \<Rightarrow>
                       if st_isDirectory stats then Inl (INVALID_REQUEST ''Path not in allowlist'')
                       else Inl (NOT_DIRECTORY ''Path is not a directory'')))
         \<and> snd (configAllowedPaths w cfg cwd fs req) = cfg
         \<and> (\<forall>w' req' e. fst (configAllowedPaths w' cfg cwd fs req') = Inl e \<and> e \<noteq> INTERNAL
               \<longrightarrow> snd (configAllowedPaths w' cfg cwd fs req') = cfg)"
proof -
  have "\<forall>w' req' e. fst (configAllowedPaths w' cfg cwd fs req') = Inl e \<and> e \<noteq> INTERNAL
               \<longrightarrow> snd (configAllowedPaths w' cfg cwd fs req') = cfg"
    using configAllowedPaths_error_unchanged by blast
  moreover have "fst (configAllowedPaths w cfg cwd fs req) =
           (case m_path req of
              None \<Rightarrow> Inl (INVALID_REQUEST ''path is required'')
            | Some p \<Rightarrow>
                if p = [] then Inl (INVALID_REQUEST ''path is required'')
                else
                  (case fs_stat fs (normalizePath cwd p) of
                     None \<Rightarrow> Inl (NOT_FOUND ''Path not found'')
                   | Some stats \<Rightarrow>
                       if st_isDirectory stats then Inl (INVALID_REQUEST ''Path not in allowlist'')
                       else Inl (NOT_DIRECTORY ''Path is not a directory'')))"
    using assms by (auto simp: configAllowedPaths_def Let_def split: option.splits)
  moreover have "snd (configAllowedPaths w cfg cwd fs req) = cfg"
    using assms by (auto simp: configAllowedPaths_def Let_def split: option.splits)
  ultimately show ?thesis by blast
qed

theorem C8_setActive_rejects_non_member_witness:
  "normalizePath ''/srv/app'' ''/home/u'' \<notin> set (allowedPaths demo_cfg)
   \<and> fst (configAllowedPaths True demo_cfg ''/srv/app'' demo_fs
            \<lparr>m_action = Some ''setActive'', m_path = Some ''/home/u''\<rparr>)
       = Inl (INVALID_REQUEST ''Path not in allowlist'')
   \<and> snd (configAllowedPaths True demo_cfg ''/srv/app'' demo_fs
            \<lparr>m_action = Some ''setActive'', m_path = Some ''/home/u''\<rparr>) = demo_cfg"
proof -
  let ?req = "\<lparr>m_action = Some ''setActive'', m_path = Some ''/home/u''\<rparr>"
  have h: "normalizePath ''/srv/app'' ''/home/u'' \<notin> set (allowedPaths demo_cfg)"
    by (simp add: path_defs cfg_defs)
  have h1: "m_action ?req = Some ''setActive''" by simp
  have h2: "\<forall>p. m_path ?req = Some p \<and> p \<noteq> []
              \<longrightarrow> normalizePath ''/srv/app'' p \<notin> set (allowedPaths demo_cfg)"
    using h by simp
  have st: "fs_stat demo_fs (normalizePath ''/srv/app'' ''/home/u'')
            = Some \<lparr>st_size = 4096, st_mtime = ''t0'', st_isDirectory = True\<rparr>"
    by (simp add: path_defs fs_defs demo_fs_def)
  note t = C8_setActive_rejects_non_member [where w = True and fs = demo_fs, OF h1 h2]
  from t [THEN conjunct1] st
  have r1: "fst (configAllowedPaths True demo_cfg ''/srv/app'' demo_fs ?req)
              = Inl (INVALID_REQUEST ''Path not in allowlist'')"
    by simp
  note r2 = t [THEN conjunct2, THEN conjunct1]
  from h r1 r2 show ?thesis by (intro conjI)
qed

text \<open>
  The invariant "the active root is empty or a member of \<^verbatim>\<open>allowedPaths\<close>" is kept by every
  request, and so it holds after any number of requests to a server that started from
  \<^verbatim>\<open>DEFAULT_CONFIG\<close>.
\<close>

lemma configAllowedPaths_keeps_invariant_pair:
  assumes "activeProjectRoot cfg = [] \<or> activeProjectRoot cfg \<in> set (allowedPaths cfg)"
    and "configAllowedPaths w cfg cwd fs req = (res, cfg')"
  shows "activeProjectRoot cfg' = [] \<or> activeProjectRoot cfg' \<in> set (allowedPaths cfg')"
  using assms
  by (auto simp: configAllowedPaths_def persist_def Let_def
           split: option.splits if_splits list.splits)

lemma configAllowedPaths_keeps_invariant:
  assumes "activeProjectRoot cfg = [] \<or> activeProjectRoot cfg \<in> set (allowedPaths cfg)"
  shows "activeProjectRoot (snd (configAllowedPaths w cfg cwd fs req)) = []
         \<or> activeProjectRoot (snd (configAllowedPaths w cfg cwd fs req))
             \<in> set (allowedPaths (snd (configAllowedPaths w cfg cwd fs req)))"
  using assms surjective_pairing by (rule configAllowedPaths_keeps_invariant_pair)

lemma serve_keeps_invariant:
  assumes "activeProjectRoot cfg = [] \<or> activeProjectRoot cfg \<in> set (allowedPaths cfg)"
  shows "activeProjectRoot (serve cwd cfg rs) = []
         \<or> activeProjectRoot (serve cwd cfg rs) \<in> set (allowedPaths (serve cwd cfg rs))"
  using assms
proof (induction rs arbitrary: cfg)
  case Nil
  then show ?case by simp
next
  case (Cons r rs)
  obtain w fs req where r: "r = (w, fs, req)"
    by (cases r) auto
  from Cons.IH [OF configAllowedPaths_keeps_invariant [OF Cons.prems, of w cwd fs req]]
  show ?case by (simp add: r)
qed

lemma serve_from_default:
  "activeProjectRoot (serve cwd DEFAULT_CONFIG rs) = []
   \<or> activeProjectRoot (serve cwd DEFAULT_CONFIG rs) \<in> set (allowedPaths (serve cwd DEFAULT_CONFIG rs))"
  by (rule serve_keeps_invariant) (simp add: DEFAULT_CONFIG_def)

text \<open>
  C9. The invariant "the active root is empty or a member of \<^verbatim>\<open>allowedPaths\<close>" is kept by
  every request to the handler (it holds of \<^verbatim>\<open>DEFAULT_CONFIG\<close>), whether or not the
  configuration file can be written; in particular the active root is empty once
  \<^verbatim>\<open>allowedPaths\<close> is empty, and no other field of the configuration changes. A request with
  a non-empty path that resolves to an existing directory is carried out as follows, and
  answered with the new \<^verbatim>\<open>allowedPaths\<close> and active root once the configuration file is
  written. \<^verbatim>\<open>remove\<close> deletes every occurrence of the resolved path from \<^verbatim>\<open>allowedPaths\<close>;
  if it was the active root, the first remaining member becomes active, or no root when
  none remains; otherwise the active root stays. \<^verbatim>\<open>add\<close> appends the resolved path unless
  it is a member, and makes it the active root when there was none. \<^verbatim>\<open>setActive\<close> of a
  member makes it the active root.
\<close>

theorem C9_active_root_invariant:
  assumes "activeProjectRoot cfg = [] \<or> activeProjectRoot cfg \<in> set (allowedPaths cfg)"
    and "configAllowedPaths w cfg cwd fs req = (res, cfg')"
  shows "(activeProjectRoot cfg' = [] \<or> activeProjectRoot cfg' \<in> set (allowedPaths cfg'))
       \<and> (allowedPaths cfg' = [] \<longrightarrow> activeProjectRoot cfg' = [])
       \<and> cfg' = cfg\<lparr>allowedPaths := allowedPaths cfg', activeProjectRoot := activeProjectRoot cfg'\<rparr>
       \<and> (\<forall>p stats. m_path req = Some p \<and> p \<noteq> []
              \<and> fs_stat fs (normalizePath cwd p) = Some stats \<and> st_isDirectory stats \<longrightarrow>
            (m_action req = Some ''remove'' \<longrightarrow>
               allowedPaths cfg' = filter (\<lambda>q. q \<noteq> normalizePath cwd p) (allowedPaths cfg)
               \<and> activeProjectRoot cfg' =
                   (if activeProjectRoot cfg = normalizePath cwd p
                    then (case filter (\<lambda>q. q \<noteq> normalizePath cwd p) (allowedPaths cfg) of
                            [] \<Rightarrow> [] | q # _ \<Rightarrow> q)
                    else activeProjectRoot cfg)
               \<and> res = (if w then Inr (allowedPaths cfg', activeProjectRoot cfg') else Inl INTERNAL))
          \<and> (m_action req = Some ''add'' \<longrightarrow>
               allowedPaths cfg' =
                   (if normalizePath cwd p \<in> set (allowedPaths cfg) then allowedPaths cfg
                    else allowedPaths cfg @ [normalizePath cwd p])
               \<and> activeProjectRoot cfg' =
                   (if activeProjectRoot cfg = [] then normalizePath cwd p
                    else activeProjectRoot cfg)
               \<and> res = (if w then Inr (allowedPaths cfg', activeProjectRoot cfg') else Inl INTERNAL))
          \<and> (m_action req = Some ''setActive'' \<and> normalizePath cwd p \<in> set (allowedPaths cfg) \<longrightarrow>
               allowedPaths cfg' = allowedPaths cfg
               \<and> activeProjectRoot cfg' = normalizePath cwd p
               \<and> res = (if w then Inr (allowedPaths cfg', activeProjectRoot cfg') else Inl INTERNAL)))"
proof -
  have c': "cfg' = snd (configAllowedPaths w cfg cwd fs req)"
    and r': "res = fst (configAllowedPaths w cfg cwd fs req)"
    using assms(2) by simp_all
  have inv: "activeProjectRoot cfg' = [] \<or> activeProjectRoot cfg' \<in> set (allowedPaths cfg')"
    unfolding c' using assms(1) by (rule configAllowedPaths_keeps_invariant)
  then have emp: "allowedPaths cfg' = [] \<longrightarrow> activeProjectRoot cfg' = []"
    by auto
  have oth: "cfg' = cfg\<lparr>allowedPaths := allowedPaths cfg', activeProjectRoot := activeProjectRoot cfg'\<rparr>"
    unfolding c'
    by (auto simp: configAllowedPaths_def persist_def Let_def split: option.splits)
  have act: "\<forall>p stats. m_path req = Some p \<and> p \<noteq> []
              \<and> fs_stat fs (normalizePath cwd p) = Some stats \<and> st_isDirectory stats \<longrightarrow>
            (m_action req = Some ''remove'' \<longrightarrow>
               allowedPaths cfg' = filter (\<lambda>q. q \<noteq> normalizePath cwd p) (allowedPaths cfg)
               \<and> activeProjectRoot cfg' =
                   (if activeProjectRoot cfg = normalizePath cwd p
                    then (case filter (\<lambda>q. q \<noteq> normalizePath cwd p) (allowedPaths cfg) of
                            [] \<Rightarrow> [] | q # _ \<Rightarrow> q)
                    else activeProjectRoot cfg)
               \<and> res = (if w then Inr (allowedPaths cfg', activeProjectRoot cfg') else Inl INTERNAL))
          \<and> (m_action req = Some ''add'' \<longrightarrow>
               allowedPaths cfg' =
                   (if normalizePath cwd p \<in> set (allowedPaths cfg) then allowedPaths cfg
                    else allowedPaths cfg @ [normalizePath cwd p])
               \<and> activeProjectRoot cfg' =
                   (if activeProjectRoot cfg = [] then normalizePath cwd p
                    else activeProjectRoot cfg)
               \<and> res = (if w then Inr (allowedPaths cfg', activeProjectRoot cfg') else Inl INTERNAL))
          \<and> (m_action req = Some ''setActive'' \<and> normalizePath cwd p \<in> set (allowedPaths cfg) \<longrightarrow>
               allowedPaths cfg' = allowedPaths cfg
               \<and> activeProjectRoot cfg' = normalizePath cwd p
               \<and> res = (if w then Inr (allowedPaths cfg', activeProjectRoot cfg') else Inl INTERNAL))"
    unfolding c' r'
    by (auto simp: configAllowedPaths_def persist_def Let_def)
  from inv emp oth act show ?thesis by (intro conjI)
qed

theorem C9_active_root_invariant_witness:
  "activeProjectRoot two_roots_cfg \<in> set (allowedPaths two_roots_cfg)
   \<and> fs_stat demo_fs (normalizePath ''/srv/app'' ''/home/u/proj'')
       = Some \<lparr>st_size = 4096, st_mtime = ''t0'', st_isDirectory = True\<rparr>
   \<and> allowedPaths two_roots_cfg = [''/home/u/proj'', ''/home/u'']
   \<and> activeProjectRoot two_roots_cfg = ''/home/u/proj''
   \<and> (\<exists>cfg'. configAllowedPaths True two_roots_cfg ''/srv/app'' demo_fs
                \<lparr>m_action = Some ''remove'', m_path = Some ''/home/u/proj''\<rparr>
              = (Inr ([''/home/u''], ''/home/u''), cfg')
            \<and> allowedPaths cfg' = [''/home/u''] \<and> activeProjectRoot cfg' = ''/home/u'')"
proof -
  let ?req = "\<lparr>m_action = Some ''remove'', m_path = Some ''/home/u/proj''\<rparr>"
  have al: "allowedPaths two_roots_cfg = [''/home/u/proj'', ''/home/u'']"
    and ac: "activeProjectRoot two_roots_cfg = ''/home/u/proj''"
    by (simp_all add: two_roots_cfg_def)
  have h0: "activeProjectRoot two_roots_cfg \<in> set (allowedPaths two_roots_cfg)"
    unfolding al ac by simp
  then have h0': "activeProjectRoot two_roots_cfg = []
                  \<or> activeProjectRoot two_roots_cfg \<in> set (allowedPaths two_roots_cfg)" ..
  have n: "normalizePath ''/srv/app'' ''/home/u/proj'' = ''/home/u/proj''"
    by (simp add: path_defs)
  have st: "fs_stat demo_fs (normalizePath ''/srv/app'' ''/home/u/proj'')
       = Some \<lparr>st_size = 4096, st_mtime = ''t0'', st_isDirectory = True\<rparr>"
    unfolding n by (simp add: fs_defs segments_def demo_fs_def)
  obtain res cfg' where e: "configAllowedPaths True two_roots_cfg ''/srv/app'' demo_fs ?req = (res, cfg')"
    by (metis surj_pair)
  note t = C9_active_root_invariant [OF h0' e]
  from t [THEN conjunct2, THEN conjunct2, THEN conjunct2,
          THEN spec [where x = "''/home/u/proj''"],
          THEN spec [where x = "\<lparr>st_size = 4096, st_mtime = ''t0'', st_isDirectory = True\<rparr>"]]
       st
  have rm: "allowedPaths cfg' = filter (\<lambda>q. q \<noteq> normalizePath ''/srv/app'' ''/home/u/proj'')
                                  (allowedPaths two_roots_cfg)
            \<and> activeProjectRoot cfg' =
                (if activeProjectRoot two_roots_cfg = normalizePath ''/srv/app'' ''/home/u/proj''
                 then (case filter (\<lambda>q. q \<noteq> normalizePath ''/srv/app'' ''/home/u/proj'')
                              (allowedPaths two_roots_cfg) of
                         [] \<Rightarrow> [] | q # _ \<Rightarrow> q)
                 else activeProjectRoot two_roots_cfg)
            \<and> res = (if True then Inr (allowedPaths cfg', activeProjectRoot cfg') else Inl INTERNAL)"
    by simp
  then have a': "allowedPaths cfg' = [''/home/u'']"
    and b': "activeProjectRoot cfg' = ''/home/u''"
    unfolding n al ac by simp_all
  from rm have "res = Inr (allowedPaths cfg', activeProjectRoot cfg')" by simp
  then have r': "res = Inr ([''/home/u''], ''/home/u'')"
    unfolding a' b' .
  from e r' a' b'
  have "\<exists>cfg'. configAllowedPaths True two_roots_cfg ''/srv/app'' demo_fs ?req
              = (Inr ([''/home/u''], ''/home/u''), cfg')
            \<and> allowedPaths cfg' = [''/home/u''] \<and> activeProjectRoot cfg' = ''/home/u''"
    by blast
  with h0 st al ac show ?thesis by (intro conjI)
qed

subsection \<open>Bounded file reader\<close>

text \<open>The handler, once the path has passed the guard, the extension policy and \<^verbatim>\<open>fs.stat\<close>.\<close>

lemma fsRead_checked:
  assumes "r_path req = Some p" and "p \<noteq> []"
    and "isWithinAllowed cwd (normalizePath cwd p) (allowedPaths cfg)"
    and "\<not> isForbiddenExtension (normalizePath cwd p) (forbiddenExtensions cfg)"
    and "fs_stat fs (normalizePath cwd p) = Some stats"
  shows "fsRead dec cfg cwd fs req =
     (let resolvedPath = normalizePath cwd p;
          maxLines = (case r_maxLines req of None \<Rightarrow> maxReadLines cfg | Some m \<Rightarrow> m)
      in if js_gt (Num (real (st_size stats))) (maxFileSize cfg)
         then (Inl (FILE_TOO_LARGE (st_size stats) (maxFileSize cfg)),
               [OpExists resolvedPath, OpStat resolvedPath])
         else
           (case fs_readFile dec fs resolvedPath (r_encoding req) of
              Rejected \<Rightarrow>
                (Inl INTERNAL, [OpExists resolvedPath, OpStat resolvedPath, OpReadFile resolvedPath])
            | Buffer \<Rightarrow>
                (Inl INTERNAL, [OpExists resolvedPath, OpStat resolvedPath, OpReadFile resolvedPath])
            | Text content \<Rightarrow>
                (let finalContent =
                       (if js_truthy maxLines \<and> js_gt maxLines (Num 0)
                        then
                          (let lines' = split_on (CHR 0x0A) content
                           in if js_gt (Num (real (length lines'))) maxLines
                              then join_with [CHR 0x0A] (slice0 lines' maxLines) @ truncation_suffix
                              else content)
                        else content)
                 in (Inr \<lparr>rd_path = p,
                          rd_content = finalContent,
                          rd_size = st_size stats,
                          rd_lastModified = st_mtime stats,
                          rd_lines = length (split_on (CHR 0x0A) finalContent),
                          rd_truncated = (content \<noteq> finalContent)\<rparr>,
                     [OpExists resolvedPath, OpStat resolvedPath, OpReadFile resolvedPath]))))"
  using assms by (simp add: fsRead_def existsSync_def Let_def)

text \<open>A \<^verbatim>\<open>FILE_TOO_LARGE\<close> response always carries the size and the limit and follows no read.\<close>

lemma fsRead_too_large_only_after_stat:
  assumes "fst (fsRead dec cfg cwd fs req) = Inl (FILE_TOO_LARGE sz mx)"
  shows "\<exists>p stats. r_path req = Some p \<and> fs_stat fs (normalizePath cwd p) = Some stats
           \<and> sz = st_size stats \<and> mx = maxFileSize cfg \<and> js_gt (Num (real sz)) mx
           \<and> snd (fsRead dec cfg cwd fs req)
               = [OpExists (normalizePath cwd p), OpStat (normalizePath cwd p)]"
  using assms
  by (auto simp: fsRead_def existsSync_def Let_def
           split: option.splits if_splits read_result.splits)

text \<open>
  What \<^verbatim>\<open>fs.readFile\<close> gives for a file: its whole text when the request has no
  \<^verbatim>\<open>encoding\<close>, and never a text when the \<^verbatim>\<open>encoding\<close> is \<^verbatim>\<open>null\<close>.
\<close>

lemma fs_readFile_default:
  assumes "fs_lookup fs (segments r) = Some (File sz mt content)"
  shows "fs_readFile dec fs r EncDefault = Text content"
    and "fs_readFile dec fs r EncNull = Buffer"
  using assms by (simp_all add: fs_readFile_def)

text \<open>
  The request encoding at work on the two-line file \<^verbatim>\<open>a.txt\<close>, with \<^verbatim>\<open>maxLines\<close> 1: under
  \<^verbatim>\<open>hex\<close> the text is one line of hexadecimal digits and nothing is cut; under \<^verbatim>\<open>null\<close> the
  handler throws.
\<close>

lemma fsRead_encoding_examples:
  "fst (fsRead hex_only demo_cfg ''/srv/app'' demo_fs
          \<lparr>r_path = Some ''/home/u/proj/a.txt'', r_maxLines = Some (Num 1),
           r_encoding = EncName ''hex''\<rparr>)
     = Inr \<lparr>rd_path = ''/home/u/proj/a.txt'', rd_content = ''780a79'', rd_size = 3,
            rd_lastModified = ''t2'', rd_lines = 1, rd_truncated = False\<rparr>"
  "fst (fsRead hex_only demo_cfg ''/srv/app'' demo_fs
          \<lparr>r_path = Some ''/home/u/proj/a.txt'', r_maxLines = Some (Num 1),
           r_encoding = EncNull\<rparr>)
     = Inl INTERNAL"
  by (simp_all add: fsRead_def path_defs ext_defs fs_defs cfg_defs demo_fs_def js_gt_def
        js_truthy_def slice0_def truncation_suffix_def lower_char_def is_utf8_name_def
        hex_only_def hex_of_def hex_digit_def)



subsection \<open>Truncation to a number of lines\<close>

lemma split_on_truncated:
  assumes "0 < n" and "c \<notin> set m"
  shows "split_on c (join_with [c] (take n (split_on c s)) @ c # m) = take n (split_on c s) @ [m]"
proof -
  let ?ls = "split_on c s"
  have ne: "take n ?ls \<noteq> []"
    using assms(1) split_on_nonempty [of c s] by simp
  have pieces: "\<forall>x\<in>set (take n ?ls @ [m]). c \<notin> set x"
    using assms(2) split_on_pieces [of _ c s] by (auto dest: in_set_takeD)
  have "join_with [c] (take n ?ls) @ c # m = join_with [c] (take n ?ls @ [m])"
    using ne by (simp add: join_with_snoc)
  then show ?thesis
    using split_on_join [OF _ pieces] by simp
qed

lemma truncated_same_iff:
  assumes "0 < n" and "n < length (split_on c s)" and "c \<notin> set m"
  shows "s = join_with [c] (take n (split_on c s)) @ c # m
         \<longleftrightarrow> length (split_on c s) = Suc n \<and> last (split_on c s) = m"
proof
  assume eq: "s = join_with [c] (take n (split_on c s)) @ c # m"
  have "split_on c s = split_on c (join_with [c] (take n (split_on c s)) @ c # m)"
    using eq by simp
  then have "split_on c s = take n (split_on c s) @ [m]"
    using split_on_truncated [OF assms(1,3)] by simp
  then have "length (split_on c s) = length (take n (split_on c s) @ [m])"
    and "last (split_on c s) = last (take n (split_on c s) @ [m])"
    by simp_all
  then show "length (split_on c s) = Suc n \<and> last (split_on c s) = m"
    using assms(2) by simp
next
  assume h: "length (split_on c s) = Suc n \<and> last (split_on c s) = m"
  let ?ls = "split_on c s"
  have "?ls = take n ?ls @ drop n ?ls" by simp
  moreover have "drop n ?ls = [last ?ls]"
  proof -
    have "length (drop n ?ls) = 1" using h by simp
    then obtain x where dx: "drop n ?ls = [x]"
      by (cases "drop n ?ls") auto
    have "last ?ls = last (drop n ?ls)"
      using h by (simp add: last_drop)
    with dx show ?thesis by simp
  qed
  ultimately have "?ls = take n ?ls @ [m]" using h by simp
  then have "join_with [c] ?ls = join_with [c] (take n ?ls @ [m])" by simp
  moreover have "take n ?ls \<noteq> []"
    using assms(1) split_on_nonempty [of c s] by simp
  ultimately show "s = join_with [c] (take n ?ls) @ c # m"
    by (simp add: join_split_on join_with_snoc)
qed

text \<open>
  C7, as the specification has it: a file of \<open>maxLines + k\<close> lines, \<open>k > 0\<close>, is returned
  with \<^verbatim>\<open>truncated\<close> true. The handler computes the flag by comparing the returned text
  with the original one: a file of \<open>maxLines + 1\<close> lines whose last line is itself the
  text \<^verbatim>\<open>... (truncated)\<close> comes back unchanged and with \<^verbatim>\<open>truncated\<close> false. Here
  \<open>maxLines = 1\<close>, the file has two lines, and the request has no \<^verbatim>\<open>encoding\<close>.
\<close>

theorem C7_counterexample:
  "length (split_on (CHR 0x0A) (CHR ''a'' # CHR 0x0A # ''... (truncated)'')) = 1 + 1
   \<and> fs_readFile hex_only demo_fs ''/home/u/proj/note.txt'' EncDefault
       = Text (CHR ''a'' # CHR 0x0A # ''... (truncated)'')
   \<and> fst (fsRead hex_only demo_cfg ''/srv/app'' demo_fs
            \<lparr>r_path = Some ''/home/u/proj/note.txt'', r_maxLines = Some (Num 1),
             r_encoding = EncDefault\<rparr>)
       = Inr \<lparr>rd_path = ''/home/u/proj/note.txt'',
              rd_content = CHR ''a'' # CHR 0x0A # ''... (truncated)'',
              rd_size = 17, rd_lastModified = ''t4'', rd_lines = 2, rd_truncated = False\<rparr>"
  by (simp add: fsRead_def path_defs ext_defs fs_defs cfg_defs demo_fs_def js_gt_def js_truthy_def
        slice0_def truncation_suffix_def lower_char_def)

text \<open>
  C7, amended. Take a file within the size limit, the text \<open>t\<close> that \<^verbatim>\<open>fs.readFile\<close> gives
  for it under the request's \<^verbatim>\<open>encoding\<close> (the file's content when the request has none),
  and a positive whole number \<open>n\<close> of \<^verbatim>\<open>maxLines\<close>. Then the request succeeds and the
  reported line count is that of the returned content; a text of at most \<open>n\<close> lines is
  returned unchanged with \<^verbatim>\<open>truncated\<close> false; a text of more than \<open>n\<close> lines is returned
  as its first \<open>n\<close> lines followed by the one line \<^verbatim>\<open>... (truncated)\<close>, the line count is
  \<open>n + 1\<close>, and \<^verbatim>\<open>truncated\<close> is true unless the text has exactly \<open>n + 1\<close> lines and its
  last line is \<^verbatim>\<open>... (truncated)\<close> (the returned content then equals the text).
\<close>

theorem C7_line_truncation:
  assumes "r_path req = Some p" and "p \<noteq> []"
    and "isWithinAllowed cwd (normalizePath cwd p) (allowedPaths cfg)"
    and "\<not> isForbiddenExtension (normalizePath cwd p) (forbiddenExtensions cfg)"
    and "fs_lookup fs (segments (normalizePath cwd p)) = Some (File sz mt content)"
    and "\<not> js_gt (Num (real sz)) (maxFileSize cfg)"
    and "(case r_maxLines req of None \<Rightarrow> maxReadLines cfg | Some m \<Rightarrow> m) = Num (real n)"
    and "0 < n"
    and "fs_readFile dec fs (normalizePath cwd p) (r_encoding req) = Text t"
  shows "(r_encoding req = EncDefault \<longrightarrow> t = content)
       \<and> (\<exists>d. fst (fsRead dec cfg cwd fs req) = Inr d
           \<and> rd_lines d = length (split_on (CHR 0x0A) (rd_content d))
           \<and> (length (split_on (CHR 0x0A) t) \<le> n \<longrightarrow>
                 rd_content d = t \<and> \<not> rd_truncated d)
           \<and> (n < length (split_on (CHR 0x0A) t) \<longrightarrow>
                 split_on (CHR 0x0A) (rd_content d)
                   = take n (split_on (CHR 0x0A) t) @ [''... (truncated)'']
                 \<and> rd_lines d = n + 1
                 \<and> (rd_truncated d \<longleftrightarrow>
                      \<not> (length (split_on (CHR 0x0A) t) = n + 1
                         \<and> last (split_on (CHR 0x0A) t) = ''... (truncated)''))))"
proof -
  let ?r = "normalizePath cwd p"
  let ?ls = "split_on (CHR 0x0A) t"
  let ?m = "''... (truncated)''"
  have st: "fs_stat fs ?r = Some \<lparr>st_size = sz, st_mtime = mt, st_isDirectory = False\<rparr>"
    using assms(5) by (simp add: fs_stat_def)
  have df: "r_encoding req = EncDefault \<longrightarrow> t = content"
    using fs_readFile_default(1) [OF assms(5), of dec] assms(9) by auto
  have tr: "js_truthy (Num (real n)) \<and> js_gt (Num (real n)) (Num 0)"
    using assms(8) by (simp add: js_truthy_def js_gt_def)
  have gt: "js_gt (Num (real (length ?ls))) (Num (real n)) \<longleftrightarrow> n < length ?ls"
    by (simp add: js_gt_def)
  have sl: "slice0 ?ls (Num (real n)) = take n ?ls"
    by (simp add: slice0_def)
  have nl: "CHR 0x0A \<notin> set ?m" by simp
  define final where "final = (if n < length ?ls
      then join_with [CHR 0x0A] (take n ?ls) @ CHR 0x0A # ?m else t)"
  have eq: "fst (fsRead dec cfg cwd fs req) =
      Inr \<lparr>rd_path = p, rd_content = final, rd_size = sz, rd_lastModified = mt,
           rd_lines = length (split_on (CHR 0x0A) final), rd_truncated = (t \<noteq> final)\<rparr>"
    using assms(6) assms(7) assms(9) tr gt sl
    by (simp add: fsRead_checked [OF assms(1-4) st] Let_def final_def truncation_suffix_def)
  have short: "length ?ls \<le> n \<Longrightarrow> final = t"
    by (simp add: final_def)
  have long1: "n < length ?ls \<Longrightarrow> split_on (CHR 0x0A) final = take n ?ls @ [?m]"
    using split_on_truncated [OF assms(8) nl, of t] by (simp add: final_def)
  have long2: "n < length ?ls \<Longrightarrow>
      (t \<noteq> final) = (\<not> (length ?ls = n + 1 \<and> last ?ls = ?m))"
    using truncated_same_iff [OF assms(8) _ nl, of t] by (simp add: final_def)
  have "\<exists>d. fst (fsRead dec cfg cwd fs req) = Inr d
           \<and> rd_lines d = length (split_on (CHR 0x0A) (rd_content d))
           \<and> (length ?ls \<le> n \<longrightarrow> rd_content d = t \<and> \<not> rd_truncated d)
           \<and> (n < length ?ls \<longrightarrow>
                 split_on (CHR 0x0A) (rd_content d) = take n ?ls @ [?m]
                 \<and> rd_lines d = n + 1
                 \<and> (rd_truncated d \<longleftrightarrow> \<not> (length ?ls = n + 1 \<and> last ?ls = ?m)))"
    unfolding eq using short long1 long2
    by (intro exI [of _ "\<lparr>rd_path = p, rd_content = final, rd_size = sz, rd_lastModified = mt,
           rd_lines = length (split_on (CHR 0x0A) final), rd_truncated = (t \<noteq> final)\<rparr>"]) simp
  with df show ?thesis by (intro conjI)
qed

theorem C7_line_truncation_witness:
  "isWithinAllowed ''/srv/app'' (normalizePath ''/srv/app'' ''/home/u/proj/a.txt'') (allowedPaths demo_cfg)
   \<and> \<not> isForbiddenExtension (normalizePath ''/srv/app'' ''/home/u/proj/a.txt'')
          (forbiddenExtensions demo_cfg)
   \<and> fs_lookup demo_fs (segments (normalizePath ''/srv/app'' ''/home/u/proj/a.txt''))
       = Some (File 3 ''t2'' [CHR ''x'', CHR 0x0A, CHR ''y''])
   \<and> \<not> js_gt (Num (real (3::nat))) (maxFileSize demo_cfg)
   \<and> fs_readFile hex_only demo_fs (normalizePath ''/srv/app'' ''/home/u/proj/a.txt'') EncDefault
       = Text [CHR ''x'', CHR 0x0A, CHR ''y'']
   \<and> (1::nat) < length (split_on (CHR 0x0A) [CHR ''x'', CHR 0x0A, CHR ''y''])
   \<and> (\<exists>d. fst (fsRead hex_only demo_cfg ''/srv/app'' demo_fs
                 \<lparr>r_path = Some ''/home/u/proj/a.txt'', r_maxLines = Some (Num 1),
                  r_encoding = EncDefault\<rparr>) = Inr d
          \<and> split_on (CHR 0x0A) (rd_content d) = [''x'', ''... (truncated)'']
          \<and> rd_lines d = 2 \<and> rd_truncated d)"
proof -
  let ?req = "\<lparr>r_path = Some ''/home/u/proj/a.txt'', r_maxLines = Some (Num 1),
               r_encoding = EncDefault\<rparr>"
  let ?c = "[CHR ''x'', CHR 0x0A, CHR ''y'']"
  have n: "normalizePath ''/srv/app'' ''/home/u/proj/a.txt'' = ''/home/u/proj/a.txt''"
    by (simp add: path_defs)
  have h1: "r_path ?req = Some ''/home/u/proj/a.txt''" by simp
  have h2: "''/home/u/proj/a.txt'' \<noteq> []" by simp
  have h3: "isWithinAllowed ''/srv/app'' (normalizePath ''/srv/app'' ''/home/u/proj/a.txt'')
              (allowedPaths demo_cfg)"
    by (simp add: path_defs cfg_defs)
  have h4: "\<not> isForbiddenExtension (normalizePath ''/srv/app'' ''/home/u/proj/a.txt'')
              (forbiddenExtensions demo_cfg)"
    unfolding n by (simp add: ext_defs cfg_defs lower_char_def)
  have h5: "fs_lookup demo_fs (segments (normalizePath ''/srv/app'' ''/home/u/proj/a.txt''))
       = Some (File 3 ''t2'' ?c)"
    unfolding n by (simp add: segments_def demo_fs_def)
  have h6: "\<not> js_gt (Num (real (3::nat))) (maxFileSize demo_cfg)"
    by (simp add: js_gt_def cfg_defs)
  have h7: "(case r_maxLines ?req of None \<Rightarrow> maxReadLines demo_cfg | Some m \<Rightarrow> m) = Num (real (1::nat))"
    by simp
  have h8: "(0::nat) < 1" by simp
  have h9: "fs_readFile hex_only demo_fs (normalizePath ''/srv/app'' ''/home/u/proj/a.txt'')
              (r_encoding ?req) = Text ?c"
    unfolding n by (simp add: fs_readFile_def segments_def demo_fs_def)
  then have h9': "fs_readFile hex_only demo_fs (normalizePath ''/srv/app'' ''/home/u/proj/a.txt'')
              EncDefault = Text ?c"
    by simp
  have sp: "split_on (CHR 0x0A) ?c = [''x'', ''y'']" by simp
  have len: "(1::nat) < length (split_on (CHR 0x0A) ?c)"
    unfolding sp by simp
  from C7_line_truncation [OF h1 h2 h3 h4 h5 h6 h7 h8 h9, THEN conjunct2]
  obtain d where d: "fst (fsRead hex_only demo_cfg ''/srv/app'' demo_fs ?req) = Inr d"
    and long: "1 < length (split_on (CHR 0x0A) ?c) \<longrightarrow>
         split_on (CHR 0x0A) (rd_content d) = take 1 (split_on (CHR 0x0A) ?c) @ [''... (truncated)'']
         \<and> rd_lines d = 1 + 1
         \<and> (rd_truncated d \<longleftrightarrow>
              \<not> (length (split_on (CHR 0x0A) ?c) = 1 + 1
                 \<and> last (split_on (CHR 0x0A) ?c) = ''... (truncated)''))"
    by blast
  from long len have
    "split_on (CHR 0x0A) (rd_content d) = take 1 (split_on (CHR 0x0A) ?c) @ [''... (truncated)'']
         \<and> rd_lines d = 1 + 1
         \<and> (rd_truncated d \<longleftrightarrow>
              \<not> (length (split_on (CHR 0x0A) ?c) = 1 + 1
                 \<and> last (split_on (CHR 0x0A) ?c) = ''... (truncated)''))"
    by (rule mp)
  then have "split_on (CHR 0x0A) (rd_content d) = [''x'', ''... (truncated)'']
      \<and> rd_lines d = 2 \<and> rd_truncated d"
    unfolding sp by simp
  with d have "\<exists>d. fst (fsRead hex_only demo_cfg ''/srv/app'' demo_fs ?req) = Inr d
          \<and> split_on (CHR 0x0A) (rd_content d) = [''x'', ''... (truncated)'']
          \<and> rd_lines d = 2 \<and> rd_truncated d"
    by blast
  with h3 h4 h5 h6 h9' len show ?thesis by (intro conjI)
qed

subsection \<open>Directory scanner\<close>

lemma js_ge_Num [simp]: "js_ge (Num a) (Num b) \<longleftrightarrow> b \<le> a"
  by (auto simp: js_ge_def)

lemma js_gt_Num [simp]: "js_gt (Num a) (Num b) \<longleftrightarrow> b < a"
  by (simp add: js_gt_def)

lemma scan_ext_refl: "entriesCount st \<le> m \<Longrightarrow> scan_ext m d st st"
  by (simp add: scan_ext_def)

lemma scan_ext_trans: "scan_ext m d st st1 \<Longrightarrow> scan_ext m d st1 st2 \<Longrightarrow> scan_ext m d st st2"
  unfolding scan_ext_def
  by (elim conjE exE) (rule conjI, assumption, rule_tac x = "new @ newa" in exI,
      rule_tac x = "ds @ dsa" in exI, simp)

lemma entry_line_not_marker:
  "set prefix \<subseteq> {CHR '' ''} \<Longrightarrow> prefix @ (if b then icon_dir else icon_file) @ name \<noteq> truncated_marker"
  by (cases prefix) (auto simp: icon_dir_def icon_file_def truncated_marker_def)

lemma scan_ext_push:
  assumes "entriesCount st < m" and "set prefix \<subseteq> {CHR '' ''}"
  shows "scan_ext m d st
           (st\<lparr>entriesCount := entriesCount st + 1,
               lines := lines st @ [prefix @ (if b then icon_dir else icon_file) @ name]\<rparr>)"
  using assms entry_line_not_marker [OF assms(2), of b name]
  by (simp add: scan_ext_def)

lemma scan_ext_readdir:
  "entriesCount st \<le> m \<Longrightarrow> k \<le> d \<Longrightarrow> scan_ext m d st (st\<lparr>readdirs := readdirs st @ [k]\<rparr>)"
  by (simp add: scan_ext_def)

lemma scan_ext_count: "scan_ext m d st st' \<Longrightarrow> entriesCount st' \<le> m"
  by (simp add: scan_ext_def)

lemma walk_scan_ext:
  "maxEntries opts = Num (real m) \<Longrightarrow> maxDepth opts = Num (real d) \<Longrightarrow>
     set prefix \<subseteq> {CHR '' ''} \<Longrightarrow> entriesCount st \<le> m \<Longrightarrow>
     scan_ext m d st (walk opts node depth prefix st)"
  "maxEntries opts = Num (real m) \<Longrightarrow> maxDepth opts = Num (real d) \<Longrightarrow>
     set prefix \<subseteq> {CHR '' ''} \<Longrightarrow> entriesCount st \<le> m \<Longrightarrow>
     scan_ext m d st (walk_loop opts dirents depth prefix st)"
proof (induction opts node depth prefix st and opts dirents depth prefix st
       rule: walk_walk_loop.induct)
  case (1 opts sz mt dirents depth prefix st)
  show ?case
  proof (cases "m \<le> entriesCount st \<or> d < depth")
    case True
    with 1 show ?thesis by (auto simp: scan_ext_refl)
  next
    case False
    then have c: "\<not> js_ge (Num (real (entriesCount st))) (maxEntries opts)"
      and dd: "\<not> js_gt (Num (real depth)) (maxDepth opts)"
      using 1(2,3) by auto
    have a: "scan_ext m d st (st\<lparr>readdirs := readdirs st @ [depth]\<rparr>)"
      using False 1(5) by (intro scan_ext_readdir) auto
    have b: "scan_ext m d (st\<lparr>readdirs := readdirs st @ [depth]\<rparr>)
               (walk_loop opts dirents depth prefix (st\<lparr>readdirs := readdirs st @ [depth]\<rparr>))"
      using 1(1) [OF c dd 1(2) 1(3) 1(4)] 1(5) by simp
    from scan_ext_trans [OF a b] c dd show ?thesis by simp
  qed
next
  case (2 opts sz mt c depth prefix st)
  then show ?case by (simp add: scan_ext_refl)
next
  case (3 opts sz mt depth prefix st)
  then show ?case by (simp add: scan_ext_refl)
next
  case (4 opts depth prefix st)
  then show ?case by (simp add: scan_ext_refl)
next
  case (5 opts depth prefix st)
  then show ?case by (simp add: scan_ext_refl)
next
  case (6 opts name child rest depth prefix st)
  note mE = \<open>maxEntries opts = Num (real m)\<close> and mD = \<open>maxDepth opts = Num (real d)\<close>
    and pre = \<open>set prefix \<subseteq> {CHR '' ''}\<close> and cnt = \<open>entriesCount st \<le> m\<close>
  show ?case
  proof (cases "m \<le> entriesCount st")
    case True
    with mE cnt show ?thesis by (simp add: scan_ext_refl)
  next
    case False
    then have c: "\<not> js_ge (Num (real (entriesCount st))) (maxEntries opts)"
      using mE by simp
    show ?thesis
    proof (cases "name \<in> set (ignoredDirs opts)")
      case True
      with 6(1) [OF c True mE mD pre cnt] c show ?thesis by simp
    next
      case ni: False
      show ?thesis
      proof (cases "node_stat child")
        case None
        with 6(2) [OF c ni None mE mD pre cnt] c ni show ?thesis by simp
      next
        case (Some stat)
        define st1 where "st1 = st\<lparr>entriesCount := entriesCount st + 1,
            lines := lines st @ [prefix @ (if st_isDirectory stat then icon_dir else icon_file) @ name]\<rparr>"
        define st2 where "st2 = (if st_isDirectory stat
            then walk opts child (depth + 1) (prefix @ ''  '') st1 else st1)"
        have e1: "scan_ext m d st st1"
          unfolding st1_def using False pre by (intro scan_ext_push) auto
        have c1: "entriesCount st1 \<le> m"
          using e1 by (rule scan_ext_count)
        have pre2: "set (prefix @ ''  '') \<subseteq> {CHR '' ''}"
          using pre by auto
        have e2: "scan_ext m d st1 st2"
        proof (cases "st_isDirectory stat")
          case True
          from 6(3) [OF c ni Some refl st1_def True mE mD pre2 c1] True
          show ?thesis by (simp add: st2_def)
        next
          case False
          then show ?thesis using c1 by (simp add: st2_def scan_ext_refl)
        qed
        have c2: "entriesCount st2 \<le> m"
          using e2 by (rule scan_ext_count)
        have e3: "scan_ext m d st2 (walk_loop opts rest depth prefix st2)"
          using 6(4) [OF c ni Some refl st1_def st2_def mE mD pre c2] .
        have "walk_loop opts ((name, child) # rest) depth prefix st
                = walk_loop opts rest depth prefix st2"
          using c ni Some by (simp add: st1_def st2_def Let_def)
        with scan_ext_trans [OF scan_ext_trans [OF e1 e2] e3] show ?thesis by simp
      qed
    qed
  qed
qed

text \<open>
  C5. With whole numbers \<open>m\<close> for \<^verbatim>\<open>maxEntries\<close> and \<open>d\<close> for \<^verbatim>\<open>maxDepth\<close>, on every
  directory tree and for every set of ignored names: the scan counts at most \<open>m\<close> entries;
  its lines are one line per counted entry, none of them the truncation marker, followed by
  at most one marker line; and every directory whose children it enumerates lies at a depth
  of at most \<open>d\<close> (the scanned directory is at depth 0), so that a directory listed by the
  enumeration at depth \<open>d\<close> is never itself enumerated.
\<close>

theorem C5_scan_bounded:
  "entriesCount (scanDirTree rootDir \<lparr>maxDepth = Num (real d), maxEntries = Num (real m), ignoredDirs = ig\<rparr>) \<le> m
   \<and> (\<exists>es. length es = entriesCount (scanDirTree rootDir
                 \<lparr>maxDepth = Num (real d), maxEntries = Num (real m), ignoredDirs = ig\<rparr>)
         \<and> truncated_marker \<notin> set es
         \<and> (lines (scanDirTree rootDir
                 \<lparr>maxDepth = Num (real d), maxEntries = Num (real m), ignoredDirs = ig\<rparr>) = es
            \<or> lines (scanDirTree rootDir
                 \<lparr>maxDepth = Num (real d), maxEntries = Num (real m), ignoredDirs = ig\<rparr>)
               = es @ [truncated_marker]))
   \<and> list_all (\<lambda>k. k \<le> d)
        (readdirs (scanDirTree rootDir
           \<lparr>maxDepth = Num (real d), maxEntries = Num (real m), ignoredDirs = ig\<rparr>))"
proof -
  let ?opts = "\<lparr>maxDepth = Num (real d), maxEntries = Num (real m), ignoredDirs = ig\<rparr>"
  let ?init = "\<lparr>lines = [], entriesCount = 0, readdirs = []\<rparr>"
  let ?st = "walk ?opts rootDir 0 [] ?init"
  have "scan_ext m d ?init ?st"
    by (rule walk_scan_ext(1)) simp_all
  then obtain new ds where le: "entriesCount ?st \<le> m"
    and l: "lines ?st = new" and c: "entriesCount ?st = length new"
    and nm: "truncated_marker \<notin> set new"
    and r: "readdirs ?st = ds" and dd: "list_all (\<lambda>k. k \<le> d) ds"
    by (auto simp: scan_ext_def)
  show ?thesis
  proof (cases "m \<le> entriesCount ?st")
    case True
    then have "scanDirTree rootDir ?opts = ?st\<lparr>lines := lines ?st @ [truncated_marker]\<rparr>"
      by (simp add: scanDirTree_def Let_def)
    then show ?thesis using le l c nm r dd by (intro conjI exI [of _ new]) simp_all
  next
    case False
    then have "scanDirTree rootDir ?opts = ?st"
      by (simp add: scanDirTree_def Let_def)
    then show ?thesis using le l c nm r dd by (intro conjI exI [of _ new]) simp_all
  qed
qed

theorem C5_scan_bounded_witness:
  "scanDirTree (chain 3) \<lparr>maxDepth = Num (real 1), maxEntries = Num (real 10), ignoredDirs = []\<rparr>
     = \<lparr>lines = [icon_dir @ ''d'', ''  '' @ icon_dir @ ''d''], entriesCount = 2, readdirs = [0, 1]\<rparr>
   \<and> entriesCount (scanDirTree (chain 3)
         \<lparr>maxDepth = Num (real 1), maxEntries = Num (real 10), ignoredDirs = []\<rparr>) \<le> 10
   \<and> list_all (\<lambda>k. k \<le> 1)
        (readdirs (scanDirTree (chain 3)
           \<lparr>maxDepth = Num (real 1), maxEntries = Num (real 10), ignoredDirs = []\<rparr>))"
proof -
  note t = C5_scan_bounded [of "chain 3" 1 10 "[]"]
  have e: "scanDirTree (chain 3) \<lparr>maxDepth = Num (real 1), maxEntries = Num (real 10), ignoredDirs = []\<rparr>
     = \<lparr>lines = [icon_dir @ ''d'', ''  '' @ icon_dir @ ''d''], entriesCount = 2, readdirs = [0, 1]\<rparr>"
    by (simp add: scanDirTree_def eval_nat_numeral Let_def)
  from e t [THEN conjunct1] t [THEN conjunct2, THEN conjunct2] show ?thesis
    by (intro conjI)
qed




text \<open>
  A scan limited to \<open>m\<close> entries agrees, in lines and counter, with the scan without a
  limit on entries as long as the latter counts at most \<open>m\<close> entries.
\<close>

lemma js_ge_PInf [simp]: "\<not> js_ge (Num a) PInf"
  by (simp add: js_ge_def)





subsection \<open>Limits of a scan request\<close>

text \<open>\<^verbatim>\<open>Math.min(x, c)\<close> is NaN exactly for \<open>x\<close> NaN, and otherwise at most \<open>c\<close>.\<close>

lemma Math_min_clamps:
  "Math_min x (Num c) = NaN \<longleftrightarrow> x = NaN"
  "x \<noteq> NaN \<Longrightarrow> \<not> js_less (Num c) (Math_min x (Num c))"
  by (cases x; simp add: Math_min_def)+

lemma node_stat_chain: "node_stat (chain n) = Some \<lparr>st_size = 0, st_mtime = [], st_isDirectory = True\<rparr>"
  by (cases n) simp_all

lemma walk_loop_flat_NaN:
  "maxEntries opts = NaN \<Longrightarrow> ''f'' \<notin> set (ignoredDirs opts) \<Longrightarrow>
   entriesCount (walk_loop opts (replicate n (''f'', File 0 [] [])) depth prefix st) = entriesCount st + n"
  by (induction n arbitrary: st) (simp_all add: js_ge_def Let_def)

text \<open>
  C3. The limits of a scan request should be clamped to a depth of at most 8 and at most
  1500 entries whatever the caller supplies. For a value that is no number, such as
  \<^verbatim>\<open>maxDepth=abc\<close>, \<^verbatim>\<open>Number\<close> gives NaN and \<^verbatim>\<open>Math.min(NaN, 8)\<close> is NaN: the response reports
  the limits (NaN, NaN). Both tests of \<^verbatim>\<open>walk\<close> are then false for ever: a chain of
  directories is listed down to depth 10, and all 2000 files of a directory are counted.
\<close>

theorem C3_NaN_limits_are_not_clamped:
  "map_sum id limits
     (projectScan deep_cfg ''/srv/app'' deep_fs
        \<lparr>q_path = None, q_maxDepth = Given NaN, q_maxEntries = Given NaN\<rparr>) = Inr (NaN, NaN)
   \<and> readdirs (scanDirTree (chain 10) \<lparr>maxDepth = NaN, maxEntries = NaN, ignoredDirs = []\<rparr>)
       = [0, 1, 2, 3, 4, 5, 6, 7, 8, 9, 10]
   \<and> entriesCount (scanDirTree (flat 2000) \<lparr>maxDepth = NaN, maxEntries = NaN, ignoredDirs = []\<rparr>)
       = 2000"
proof -
  have a: "map_sum id limits
     (projectScan deep_cfg ''/srv/app'' deep_fs
        \<lparr>q_path = None, q_maxDepth = Given NaN, q_maxEntries = Given NaN\<rparr>) = Inr (NaN, NaN)"
    by (simp add: projectScan_def deep_cfg_def DEFAULT_CONFIG_def deep_fs_def path_defs
          node_stat_chain Number_or_def Math_min_def)
  have b: "readdirs (scanDirTree (chain 10) \<lparr>maxDepth = NaN, maxEntries = NaN, ignoredDirs = []\<rparr>)
       = [0, 1, 2, 3, 4, 5, 6, 7, 8, 9, 10]"
    by (simp add: scanDirTree_def eval_nat_numeral Let_def js_ge_def js_gt_def)
  have c: "entriesCount (scanDirTree (flat 2000) \<lparr>maxDepth = NaN, maxEntries = NaN, ignoredDirs = []\<rparr>)
       = 2000"
    by (simp add: scanDirTree_def flat_def Let_def js_ge_def js_gt_def walk_loop_flat_NaN)
  from a b c show ?thesis by (intro conjI)
qed

end
